theory Spec2Isabelle
  imports Main "HOL-Library.AList" "HOL-Library.Char_ord" "HOL-Library.List_Lexorder"
begin

chapter \<open>The program\<close>

section \<open>Go strings\<close>

text \<open>
  A Go string is a sequence of bytes, so it is modelled as a \<^typ>\<open>string\<close> (a list of 8-bit
  characters). The functions of package \<^verbatim>\<open>strings\<close> that the program calls are written out
  below on bytes. Separators are always single bytes in the program (NUL, TAB, newline,
  slash), so \<^verbatim>\<open>Split\<close> and \<^verbatim>\<open>SplitN\<close> take a character.
\<close>

abbreviation NUL :: char where "NUL \<equiv> CHR 0x00"
abbreviation TAB :: char where "TAB \<equiv> CHR 0x09"
abbreviation LF :: char where "LF \<equiv> CHR 0x0A"

fun HasPrefix :: "string \<Rightarrow> string \<Rightarrow> bool" where
  "HasPrefix s [] = True"
| "HasPrefix [] (p # ps) = False"
| "HasPrefix (c # cs) (p # ps) = (c = p \<and> HasPrefix cs ps)"

definition HasSuffix :: "string \<Rightarrow> string \<Rightarrow> bool" where
  "HasSuffix s suf = HasPrefix (rev s) (rev suf)"

fun Contains :: "string \<Rightarrow> string \<Rightarrow> bool" where
  "Contains [] sub = (sub = [])"
| "Contains (c # cs) sub = (HasPrefix (c # cs) sub \<or> Contains cs sub)"

text \<open>\<^verbatim>\<open>strings.Split(s, sep)\<close> and \<^verbatim>\<open>bytes.Split\<close>: \<open>n\<close> separators give \<open>n + 1\<close> fields.\<close>

fun Split :: "string \<Rightarrow> char \<Rightarrow> string list" where
  "Split [] sep = [[]]"
| "Split (c # cs) sep =
     (if c = sep then [] # Split cs sep
      else (case Split cs sep of f # fs \<Rightarrow> (c # f) # fs | [] \<Rightarrow> [[c]]))"

text \<open>\<^verbatim>\<open>strings.SplitN(s, sep, n)\<close>: at most \<open>n\<close> fields, the last one the unsplit rest.\<close>

fun SplitN :: "string \<Rightarrow> char \<Rightarrow> nat \<Rightarrow> string list" where
  "SplitN s sep 0 = []"
| "SplitN s sep (Suc 0) = [s]"
| "SplitN [] sep (Suc (Suc n)) = [[]]"
| "SplitN (c # cs) sep (Suc (Suc n)) =
     (if c = sep then [] # SplitN cs sep (Suc n)
      else (case SplitN cs sep (Suc (Suc n)) of f # fs \<Rightarrow> (c # f) # fs | [] \<Rightarrow> [[c]]))"

subsection \<open>White space\<close>

text \<open>
  \<^verbatim>\<open>strings.TrimSpace\<close> removes the leading and trailing runes for which
  \<^verbatim>\<open>unicode.IsSpace\<close> holds: the six ASCII characters TAB, LF, VT, FF, CR and space, and
  U+0085, U+00A0, U+1680, U+2000 to U+200A, U+2028, U+2029, U+202F, U+205F and U+3000. On
  bytes these are the following UTF-8 sequences; a byte that starts no valid sequence
  decodes to U+FFFD, which is not white space, and stops the trimming.
\<close>

definition spaceRunes :: "string list" where
  "spaceRunes =
    [[CHR 0x09], [CHR 0x0A], [CHR 0x0B], [CHR 0x0C], [CHR 0x0D], [CHR 0x20],
     [CHR 0xC2, CHR 0x85], [CHR 0xC2, CHR 0xA0], [CHR 0xE1, CHR 0x9A, CHR 0x80],
     [CHR 0xE2, CHR 0x80, CHR 0x80], [CHR 0xE2, CHR 0x80, CHR 0x81],
     [CHR 0xE2, CHR 0x80, CHR 0x82], [CHR 0xE2, CHR 0x80, CHR 0x83],
     [CHR 0xE2, CHR 0x80, CHR 0x84], [CHR 0xE2, CHR 0x80, CHR 0x85],
     [CHR 0xE2, CHR 0x80, CHR 0x86], [CHR 0xE2, CHR 0x80, CHR 0x87],
     [CHR 0xE2, CHR 0x80, CHR 0x88], [CHR 0xE2, CHR 0x80, CHR 0x89],
     [CHR 0xE2, CHR 0x80, CHR 0x8A], [CHR 0xE2, CHR 0x80, CHR 0xA8],
     [CHR 0xE2, CHR 0x80, CHR 0xA9], [CHR 0xE2, CHR 0x80, CHR 0xAF],
     [CHR 0xE2, CHR 0x81, CHR 0x9F], [CHR 0xE3, CHR 0x80, CHR 0x80]]"

text \<open>The length of the first sequence of \<open>seqs\<close> that \<open>s\<close> starts with; 0 when there is none.\<close>

fun headSeq :: "string list \<Rightarrow> string \<Rightarrow> nat" where
  "headSeq [] s = 0"
| "headSeq (q # qs) s = (if HasPrefix s q then length q else headSeq qs s)"

function stripLeading :: "string list \<Rightarrow> string \<Rightarrow> string" where
  "stripLeading seqs s =
     (if headSeq seqs s = 0 then s else stripLeading seqs (drop (headSeq seqs s) s))"
  by pat_completeness auto
termination
proof (relation "measure (\<lambda>(seqs, s). length s)")
  show "wf (measure (\<lambda>(seqs, s). length s))" by simp
next
  fix seqs :: "string list" and s :: string
  assume "headSeq seqs s \<noteq> 0"
  moreover have "headSeq seqs s \<le> length s"
  proof (induction seqs)
    case Nil
    show ?case by simp
  next
    case (Cons q qs)
    have "HasPrefix s q \<Longrightarrow> length q \<le> length s"
      by (induction s q rule: HasPrefix.induct) auto
    with Cons show ?case by auto
  qed
  ultimately show "((seqs, drop (headSeq seqs s) s), (seqs, s)) \<in> measure (\<lambda>(seqs, s). length s)"
    by simp
qed

declare stripLeading.simps [simp del]

definition TrimSpace :: "string \<Rightarrow> string" where
  "TrimSpace s = rev (stripLeading (map rev spaceRunes) (rev (stripLeading spaceRunes s)))"

subsection \<open>Lower case\<close>

text \<open>
  \<^verbatim>\<open>strings.ToLower\<close> maps a string of ASCII bytes byte by byte. A string with a byte
  above 0x7F goes through \<^verbatim>\<open>strings.Map(unicode.ToLower, s)\<close>, whose case tables belong to
  the Go library and not to the program: that mapping is the parameter \<open>uni\<close> of every
  function that lowers a string, and the theorems hold for each such mapping.
\<close>

definition isASCII :: "string \<Rightarrow> bool" where
  "isASCII s = list_all (\<lambda>c. (of_char c :: nat) < 128) s"

definition lowerByte :: "char \<Rightarrow> char" where
  "lowerByte c =
     (case map_of (zip ''ABCDEFGHIJKLMNOPQRSTUVWXYZ'' ''abcdefghijklmnopqrstuvwxyz'') c of
        Some d \<Rightarrow> d
      | None \<Rightarrow> c)"

definition ToLower :: "(string \<Rightarrow> string) \<Rightarrow> string \<Rightarrow> string" where
  "ToLower uni s = (if isASCII s then map lowerByte s else uni s)"

section \<open>The data model (types.go)\<close>

type_synonym Mode = string
type_synonym Format = string
type_synonym BodyMode = string

definition ModeAuto :: Mode where "ModeAuto = ''auto''"
definition ModeStaged :: Mode where "ModeStaged = ''staged''"
definition ModeUnstaged :: Mode where "ModeUnstaged = ''unstaged''"
definition ModeAll :: Mode where "ModeAll = ''all''"

definition FormatConventional :: Format where "FormatConventional = ''conventional''"
definition FormatPlain :: Format where "FormatPlain = ''plain''"
definition FormatGitmoji :: Format where "FormatGitmoji = ''gitmoji''"

record Change =
  Path :: string
  OldPath :: string
  Status :: string
  Source :: Mode

text \<open>Go's \<^verbatim>\<open>int\<close> is 64 bits wide here; \<open>wrap64\<close> is what \<^verbatim>\<open>+=\<close> leaves on overflow.\<close>

definition wrap64 :: "int \<Rightarrow> int" where
  "wrap64 x = (x + 2 ^ 63) mod 2 ^ 64 - 2 ^ 63"

record FileStat =
  StatPath :: string
  Added :: int
  Deleted :: int
  Binary :: bool

text \<open>The options the heuristic pipeline reads (the fields for the remote model are left out).\<close>

record Options =
  Format :: Format
  Lang :: string
  Type :: string
  Scope :: string
  Breaking :: bool
  MaxItems :: int
  MaxSubject :: int
  Emoji :: bool

section \<open>Change extraction (git.go)\<close>

text \<open>
  An index expression of Go panics when the index is out of range. The model makes that a
  result: \<open>index\<close> returns \<open>Inl IndexOutOfRange\<close>, and a function that indexes returns a sum.
\<close>

datatype panic = IndexOutOfRange

definition index :: "'a list \<Rightarrow> nat \<Rightarrow> panic + 'a" where
  "index xs i = (if i < length xs then Inr (xs ! i) else Inl IndexOutOfRange)"

text \<open>\<^verbatim>\<open>statusChar := status; if len(status) > 0 { statusChar = status[:1] }\<close>\<close>

definition statusCharOf :: "string \<Rightarrow> string" where
  "statusCharOf status = (if length status > 0 then take 1 status else status)"

text \<open>
  One iteration of the loop of \<^verbatim>\<open>parseNameStatus\<close> at cursor \<open>i\<close>, with the records
  appended so far: it either leaves the loop (\<^verbatim>\<open>break\<close>) or goes on at a new cursor with
  the new record list (\<^verbatim>\<open>continue\<close>, or the end of the loop body).
\<close>

datatype step = Break | Continue nat "Change list"

text \<open>The branch for an entry that contains a TAB: \<^verbatim>\<open>status<TAB>path\<close>.\<close>

definition parseTabbed ::
  "string list \<Rightarrow> Mode \<Rightarrow> nat \<Rightarrow> Change list \<Rightarrow> string \<Rightarrow> panic + step" where
  "parseTabbed flds source i out entry =
    (let parts = SplitN entry TAB 2 in
     if length parts < 2 then Inr (Continue (i + 1) out)
     else case index parts 0 of Inl e \<Rightarrow> Inl e | Inr status \<Rightarrow>
       let statusChar = statusCharOf status in
       if statusChar = ''R'' \<or> statusChar = ''C'' then
         (case index parts 1 of Inl e \<Rightarrow> Inl e | Inr oldPath \<Rightarrow>
            if i + 1 \<ge> length flds then Inr Break
            else case index flds (i + 1) of Inl e \<Rightarrow> Inl e | Inr newPath \<Rightarrow>
              Inr (Continue (i + 2)
                (out @ [\<lparr>Path = newPath, OldPath = oldPath,
                         Status = statusChar, Source = source\<rparr>])))
       else
         (case index parts 1 of Inl e \<Rightarrow> Inl e | Inr path \<Rightarrow>
            Inr (Continue (i + 1)
              (out @ [\<lparr>Path = path, OldPath = [],
                       Status = statusChar, Source = source\<rparr>]))))"

text \<open>The branch for an entry without a TAB: the status alone, its paths in the next fields.\<close>

definition parseBare ::
  "string list \<Rightarrow> Mode \<Rightarrow> nat \<Rightarrow> Change list \<Rightarrow> string \<Rightarrow> panic + step" where
  "parseBare flds source i out entry =
    (let status = entry; statusChar = statusCharOf status in
     if statusChar = ''R'' \<or> statusChar = ''C'' then
       (if i + 2 \<ge> length flds then Inr Break
        else case index flds (i + 1) of Inl e \<Rightarrow> Inl e | Inr oldPath \<Rightarrow>
          case index flds (i + 2) of Inl e \<Rightarrow> Inl e | Inr newPath \<Rightarrow>
            Inr (Continue (i + 3)
              (if oldPath \<noteq> [] \<and> newPath \<noteq> []
               then out @ [\<lparr>Path = newPath, OldPath = oldPath,
                            Status = statusChar, Source = source\<rparr>]
               else out)))
     else if i + 1 \<ge> length flds then Inr Break
     else case index flds (i + 1) of Inl e \<Rightarrow> Inl e | Inr path \<Rightarrow>
       Inr (Continue (i + 2)
         (if path \<noteq> []
          then out @ [\<lparr>Path = path, OldPath = [],
                       Status = statusChar, Source = source\<rparr>]
          else out)))"

definition parseEntry ::
  "string list \<Rightarrow> Mode \<Rightarrow> nat \<Rightarrow> Change list \<Rightarrow> panic + step" where
  "parseEntry flds source i out =
    (case index flds i of Inl e \<Rightarrow> Inl e | Inr entry \<Rightarrow>
       if entry = [] then Inr (Continue (i + 1) out)
       else if Contains entry [TAB] then parseTabbed flds source i out entry
       else parseBare flds source i out entry)"

text \<open>\<^verbatim>\<open>for i := 0; i < len(fields); { ... }\<close>\<close>

function parseNameStatusLoop ::
  "string list \<Rightarrow> Mode \<Rightarrow> nat \<Rightarrow> Change list \<Rightarrow> panic + Change list" where
  "parseNameStatusLoop flds source i out =
    (if \<not> i < length flds then Inr out
     else case parseEntry flds source i out of
       Inl e \<Rightarrow> Inl e
     | Inr Break \<Rightarrow> Inr out
     | Inr (Continue j out') \<Rightarrow> parseNameStatusLoop flds source j out')"
  by pat_completeness auto
termination
proof (relation "measure (\<lambda>(flds, source, i, out). length flds - i)")
  show "wf (measure (\<lambda>(flds, source, i, out). length flds - i))" by simp
next
  fix flds :: "string list" and source :: Mode and i :: nat and out :: "Change list"
    and st :: step and j :: nat and out' :: "Change list"
  assume "\<not> \<not> i < length flds" and "parseEntry flds source i out = Inr st"
    and "st = Continue j out'"
  then have "i < j"
    by (auto simp: parseEntry_def parseTabbed_def parseBare_def Let_def
        split: sum.splits if_splits)
  with \<open>\<not> \<not> i < length flds\<close>
  show "((flds, source, j, out'), (flds, source, i, out))
      \<in> measure (\<lambda>(flds, source, i, out). length flds - i)"
    by simp
qed

declare parseNameStatusLoop.simps [simp del]

definition parseNameStatus :: "string \<Rightarrow> Mode \<Rightarrow> panic + Change list" where
  "parseNameStatus data source =
     (if length data = 0 then Inr []
      else parseNameStatusLoop (Split data NUL) source 0 [])"


text \<open>\<^verbatim>\<open>parseUntracked\<close>: the loop over the fields, appending to \<open>out\<close>.\<close>

fun parseUntrackedLoop :: "string list \<Rightarrow> Change list \<Rightarrow> Change list" where
  "parseUntrackedLoop [] out = out"
| "parseUntrackedLoop (f # fs) out =
     (let path = TrimSpace f in
      if path = [] then parseUntrackedLoop fs out
      else parseUntrackedLoop fs
        (out @ [\<lparr>Path = path, OldPath = [], Status = ''U'', Source = ModeUnstaged\<rparr>]))"

definition parseUntracked :: "string \<Rightarrow> Change list" where
  "parseUntracked data =
     (if length data = 0 then [] else parseUntrackedLoop (Split data NUL) [])"

text \<open>
  A Go map from paths to records is modelled as an association list with distinct keys:
  \<open>map_of\<close> is the lookup \<^verbatim>\<open>m[k]\<close> and \<open>AList.update\<close> the store \<^verbatim>\<open>m[k] = v\<close>, which replaces
  the value of a key that is present and adds the key otherwise. Go leaves the order of
  \<^verbatim>\<open>range\<close> over a map unspecified; the model ranges in the order of first insertion, and
  the theorems below speak only of which records a result holds, never of their order.
\<close>

fun seedChanges :: "Change list \<Rightarrow> (string \<times> Change) list \<Rightarrow> (string \<times> Change) list" where
  "seedChanges [] byPath = byPath"
| "seedChanges (ch # rest) byPath = seedChanges rest (AList.update (Path ch) ch byPath)"

fun mergeUnstaged :: "Change list \<Rightarrow> (string \<times> Change) list \<Rightarrow> (string \<times> Change) list" where
  "mergeUnstaged [] byPath = byPath"
| "mergeUnstaged (ch # rest) byPath =
     (case map_of byPath (Path ch) of
        Some existing \<Rightarrow>
          mergeUnstaged rest (AList.update (Path ch) (existing\<lparr>Source := ModeAll\<rparr>) byPath)
      | None \<Rightarrow>
          mergeUnstaged rest (AList.update (Path ch) (ch\<lparr>Source := ModeAll\<rparr>) byPath))"

definition mergeChanges :: "Change list \<Rightarrow> Change list \<Rightarrow> Change list" where
  "mergeChanges staged unstaged = map snd (mergeUnstaged unstaged (seedChanges staged []))"

definition selectChanges :: "Mode \<Rightarrow> Change list \<Rightarrow> Change list \<Rightarrow> Mode \<times> Change list" where
  "selectChanges mode staged unstaged =
     (if mode = ModeStaged then (ModeStaged, staged)
      else if mode = ModeUnstaged then (ModeUnstaged, unstaged)
      else if mode = ModeAll then (ModeAll, mergeChanges staged unstaged)
      else if length staged > 0 then (ModeStaged, staged)
      else (ModeUnstaged, unstaged))"

subsection \<open>Line statistics\<close>

text \<open>
  \<^verbatim>\<open>strconv.Atoi\<close>: an optional sign, then one or more decimal digits, and a value that
  fits a 64-bit \<^verbatim>\<open>int\<close>; everything else is an error (\<open>None\<close>).
\<close>

definition digitOf :: "char \<Rightarrow> int option" where
  "digitOf c = map_of (zip ''0123456789'' [0, 1, 2, 3, 4, 5, 6, 7, 8, 9]) c"

fun digitsValue :: "string \<Rightarrow> int \<Rightarrow> int option" where
  "digitsValue [] n = Some n"
| "digitsValue (c # cs) n =
     (case digitOf c of None \<Rightarrow> None | Some d \<Rightarrow> digitsValue cs (n * 10 + d))"

definition Atoi :: "string \<Rightarrow> int option" where
  "Atoi s =
     (let neg = (s \<noteq> [] \<and> hd s = CHR ''-'');
          ds = (if s \<noteq> [] \<and> (hd s = CHR ''-'' \<or> hd s = CHR ''+'') then tl s else s)
      in if ds = [] then None
         else case digitsValue ds 0 of
           None \<Rightarrow> None
         | Some n \<Rightarrow>
             (let v = (if neg then - n else n)
              in if - (2 ^ 63) \<le> v \<and> v < 2 ^ 63 then Some v else None))"

definition strconvAtoiSafe :: "string \<Rightarrow> int option" where
  "strconvAtoiSafe raw = (case Atoi raw of None \<Rightarrow> None | Some val \<Rightarrow> Some val)"

text \<open>One line of \<^verbatim>\<open>parseNumstat\<close>: the record it appends, or \<open>None\<close> when the line is skipped.\<close>

definition parseNumstatLine :: "string \<Rightarrow> FileStat option" where
  "parseNumstatLine line0 =
     (let line = TrimSpace line0 in
      if line = [] then None
      else let parts = SplitN line TAB 3 in
        if length parts < 3 then None
        else let addStr = parts ! 0; delStr = parts ! 1; path = parts ! 2;
                 stat = \<lparr>StatPath = path, Added = 0, Deleted = 0, Binary = False\<rparr>
          in if addStr = ''-'' \<and> delStr = ''-'' then Some (stat\<lparr>Binary := True\<rparr>)
             else case (strconvAtoiSafe addStr, strconvAtoiSafe delStr) of
               (Some added, Some deleted) \<Rightarrow> Some (stat\<lparr>Added := added, Deleted := deleted\<rparr>)
             | _ \<Rightarrow> None)"

fun parseNumstatLoop :: "string list \<Rightarrow> FileStat list \<Rightarrow> FileStat list" where
  "parseNumstatLoop [] out = out"
| "parseNumstatLoop (line # rest) out =
     (case parseNumstatLine line of
        None \<Rightarrow> parseNumstatLoop rest out
      | Some stat \<Rightarrow> parseNumstatLoop rest (out @ [stat]))"

definition parseNumstat :: "string \<Rightarrow> FileStat list" where
  "parseNumstat raw =
     (if TrimSpace raw = [] then [] else parseNumstatLoop (Split raw LF) [])"

text \<open>
  The closure \<^verbatim>\<open>appendStats\<close> of \<^verbatim>\<open>collectNumstat\<close>: it rebuilds the map from \<open>combined\<close>,
  adds \<open>stats\<close> (summing the counts and OR-ing the binary flag of a path that is present)
  and returns the new \<open>combined\<close>.
\<close>

fun seedStats :: "FileStat list \<Rightarrow> (string \<times> FileStat) list \<Rightarrow> (string \<times> FileStat) list" where
  "seedStats [] byPath = byPath"
| "seedStats (st # rest) byPath = seedStats rest (AList.update (StatPath st) st byPath)"

fun addStats :: "FileStat list \<Rightarrow> (string \<times> FileStat) list \<Rightarrow> (string \<times> FileStat) list" where
  "addStats [] byPath = byPath"
| "addStats (st # rest) byPath =
     (case map_of byPath (StatPath st) of
        None \<Rightarrow> addStats rest (AList.update (StatPath st) st byPath)
      | Some existing \<Rightarrow>
          addStats rest (AList.update (StatPath st)
            (existing\<lparr>Added := wrap64 (Added existing + Added st),
                      Deleted := wrap64 (Deleted existing + Deleted st),
                      Binary := (Binary existing \<or> Binary st)\<rparr>) byPath))"

definition appendStats :: "FileStat list \<Rightarrow> FileStat list \<Rightarrow> FileStat list" where
  "appendStats combined stats =
     (if length stats = 0 then combined
      else map snd (addStats stats (seedStats combined [])))"

text \<open>
  \<^verbatim>\<open>collectNumstat\<close> runs git; its two outputs are parameters here, \<open>None\<close> when
  \<^verbatim>\<open>gitOutput\<close> returns an error (in mode \<^verbatim>\<open>all\<close> the error is dropped and the output is
  the empty string).
\<close>

definition collectNumstat :: "Mode \<Rightarrow> string option \<Rightarrow> string option \<Rightarrow> FileStat list option" where
  "collectNumstat mode stagedOut unstagedOut =
     (if mode = ModeStaged then map_option parseNumstat stagedOut
      else if mode = ModeUnstaged then map_option parseNumstat unstagedOut
      else if mode = ModeAll then
        (let unstagedRaw = (case unstagedOut of None \<Rightarrow> [] | Some out \<Rightarrow> out);
             stagedRaw = (case stagedOut of None \<Rightarrow> [] | Some out \<Rightarrow> out);
             combined = appendStats [] (parseNumstat unstagedRaw);
             combined = appendStats combined (parseNumstat stagedRaw)
         in Some combined)
      else Some [])"

section \<open>Classification (detect.go)\<close>

definition catDocs :: string where "catDocs = ''docs''"
definition catTest :: string where "catTest = ''test''"
definition catCI :: string where "catCI = ''ci''"
definition catBuild :: string where "catBuild = ''build''"
definition catChore :: string where "catChore = ''chore''"
definition catCode :: string where "catCode = ''code''"

subsection \<open>Paths\<close>

text \<open>
  \<^verbatim>\<open>filepath.Base\<close> and \<^verbatim>\<open>filepath.Ext\<close> with the separator \<^verbatim>\<open>/\<close> (git prints paths with
  forward slashes). \<open>lastElem\<close> is what follows the last slash.
\<close>

definition lastElem :: "string \<Rightarrow> string" where
  "lastElem path = rev (takeWhile (\<lambda>c. c \<noteq> CHR ''/'') (rev path))"

definition Base :: "string \<Rightarrow> string" where
  "Base path =
     (if path = [] then ''.''
      else let stripped = rev (dropWhile (\<lambda>c. c = CHR ''/'') (rev path));
               elem = lastElem stripped
           in if elem = [] then ''/'' else elem)"

definition Ext :: "string \<Rightarrow> string" where
  "Ext path =
     (let elem = lastElem path
      in if CHR ''.'' \<in> set elem
         then CHR ''.'' # rev (takeWhile (\<lambda>c. c \<noteq> CHR ''.'') (rev elem))
         else [])"

definition categorizePath :: "(string \<Rightarrow> string) \<Rightarrow> string \<Rightarrow> string" where
  "categorizePath uni path =
     (let lower = ToLower uni path;
          base = ToLower uni (Base path);
          ext = ToLower uni (Ext path)
      in
      if lower = ''readme'' \<or> HasPrefix lower ''readme.'' \<or> HasPrefix lower ''changelog''
         \<or> HasPrefix lower ''license'' \<or> HasPrefix lower ''contributing'' then catDocs
      else if HasPrefix lower ''docs/'' \<or> ext = ''.md'' \<or> ext = ''.rst'' \<or> ext = ''.adoc''
        then catDocs
      else if Contains lower ''/test/'' \<or> Contains lower ''/tests/''
         \<or> HasSuffix base ''_test.go'' \<or> Contains base ''.spec.'' \<or> Contains base ''.test.''
        then catTest
      else if HasPrefix lower ''.github/workflows/'' \<or> HasPrefix lower ''.github/actions/''
         \<or> HasPrefix lower ''.circleci/'' \<or> HasPrefix lower ''.gitlab-ci''
         \<or> base = ''jenkinsfile'' \<or> base = ''azure-pipelines.yml'' \<or> base = ''appveyor.yml''
        then catCI
      else if base = ''makefile'' \<or> base = ''dockerfile'' \<or> base = ''go.mod''
         \<or> base = ''go.sum'' \<or> base = ''package.json'' \<or> base = ''package-lock.json''
         \<or> base = ''pnpm-lock.yaml'' \<or> base = ''yarn.lock'' \<or> base = ''cargo.toml''
         \<or> base = ''cargo.lock'' \<or> base = ''pom.xml'' \<or> base = ''build.gradle''
         \<or> base = ''build.gradle.kts'' \<or> base = ''settings.gradle''
         \<or> base = ''settings.gradle.kts'' \<or> base = ''gradle.properties''
         \<or> base = ''cmakelists.txt''
        then catBuild
      else if HasPrefix lower ''build/'' \<or> HasPrefix lower ''docker/''
         \<or> HasPrefix lower ''vendor/'' \<or> HasPrefix lower ''third_party/''
        then catBuild
      else if HasPrefix lower ''scripts/'' \<or> HasPrefix lower ''tools/''
         \<or> HasPrefix lower ''config/'' \<or> HasPrefix lower ''.vscode/''
        then catChore
      else if base = ''.gitignore'' \<or> base = ''.gitattributes'' \<or> base = ''.editorconfig''
         \<or> HasPrefix base ''.prettierrc'' \<or> HasPrefix base ''.eslintrc''
         \<or> base = ''tsconfig.json'' \<or> base = ''eslint.config.js''
         \<or> base = ''.pre-commit-config.yaml'' \<or> base = ''ruff.toml''
        then catChore
      else catCode)"

subsection \<open>The dominant category\<close>

text \<open>
  \<^verbatim>\<open>counts\<close> is a Go map from category to \<^verbatim>\<open>int\<close>, read with 0 for a missing key: a
  function into \<^typ>\<open>int\<close>. A count is at most the number of changes, far below 2^63.
\<close>

fun dominantLoop :: "(string \<Rightarrow> int) \<Rightarrow> string list \<Rightarrow> string \<times> int \<Rightarrow> string \<times> int" where
  "dominantLoop counts [] (best, bestCount) = (best, bestCount)"
| "dominantLoop counts (cat # rest) (best, bestCount) =
     (let count = counts cat
      in if count > bestCount then dominantLoop counts rest (cat, count)
         else dominantLoop counts rest (best, bestCount))"

definition order :: "string list" where
  "order = [catDocs, catTest, catCI, catBuild, catChore]"

definition dominantNonCode :: "(string \<Rightarrow> int) \<Rightarrow> string" where
  "dominantNonCode counts =
     (case dominantLoop counts order (catChore, - 1) of
        (best, bestCount) \<Rightarrow> if bestCount \<le> 0 then ''chore'' else best)"

subsection \<open>Keywords in the diff\<close>

definition isDiffHeader :: "string \<Rightarrow> bool" where
  "isDiffHeader line =
     (HasPrefix line ''+++'' \<or> HasPrefix line ''---'' \<or> HasPrefix line ''@@''
      \<or> HasPrefix line ''diff '' \<or> HasPrefix line ''index '')"

fun anyKeyword :: "string \<Rightarrow> string list \<Rightarrow> bool" where
  "anyKeyword content [] = False"
| "anyKeyword content (kw # kws) = (if Contains content kw then True else anyKeyword content kws)"

fun keywordLines :: "(string \<Rightarrow> string) \<Rightarrow> string list \<Rightarrow> string list \<Rightarrow> bool" where
  "keywordLines uni [] lowerKeywords = False"
| "keywordLines uni (line # lines) lowerKeywords =
     (if line = [] then keywordLines uni lines lowerKeywords
      else if isDiffHeader line then keywordLines uni lines lowerKeywords
      else if hd line \<noteq> CHR ''+'' \<and> hd line \<noteq> CHR ''-'' then keywordLines uni lines lowerKeywords
      else let content = ToLower uni (TrimSpace (tl line))
           in if anyKeyword content lowerKeywords then True
              else keywordLines uni lines lowerKeywords)"

definition diffHasKeyword :: "(string \<Rightarrow> string) \<Rightarrow> string \<Rightarrow> string list \<Rightarrow> bool" where
  "diffHasKeyword uni diff keywords =
     (if diff = [] then False
      else let lowerKeywords = map (ToLower uni) keywords
           in keywordLines uni (Split diff LF) lowerKeywords)"

subsection \<open>Exported names\<close>

text \<open>
  The three regular expressions of \<^verbatim>\<open>findExportedNames\<close>, each anchored at the start of
  the trimmed line, as matchers that return the captured name. In Go's syntax \<^verbatim>\<open>\s\<close> is one
  of TAB, LF, FF, CR and space. Every \<^verbatim>\<open>\s+\<close> is followed by something that is no white
  space, so it takes the whole run; the name \<^verbatim>\<open>[A-Z][A-Za-z0-9_]*\<close> is greedy.
\<close>

definition isReSpace :: "char \<Rightarrow> bool" where
  "isReSpace c = (c \<in> set [CHR 0x09, CHR 0x0A, CHR 0x0C, CHR 0x0D, CHR 0x20])"

definition isUpper :: "char \<Rightarrow> bool" where
  "isUpper c = (c \<in> set ''ABCDEFGHIJKLMNOPQRSTUVWXYZ'')"

definition isIdentChar :: "char \<Rightarrow> bool" where
  "isIdentChar c =
     (c \<in> set ''ABCDEFGHIJKLMNOPQRSTUVWXYZabcdefghijklmnopqrstuvwxyz0123456789_'')"

definition lit :: "string \<Rightarrow> string \<Rightarrow> string option" where
  "lit p s = (if HasPrefix s p then Some (drop (length p) s) else None)"

definition spaces1 :: "string \<Rightarrow> string option" where
  "spaces1 s = (if s \<noteq> [] \<and> isReSpace (hd s) then Some (dropWhile isReSpace s) else None)"

definition identName :: "string \<Rightarrow> string option" where
  "identName s =
     (if s \<noteq> [] \<and> isUpper (hd s) then Some (hd s # takeWhile isIdentChar (tl s)) else None)"

text \<open>The first literal of \<open>ps\<close> that \<open>s\<close> starts with, followed by \<^verbatim>\<open>\s+\<close> and a name.\<close>

fun keywordName :: "string list \<Rightarrow> string \<Rightarrow> string option" where
  "keywordName [] s = None"
| "keywordName (p # ps) s =
     (case Option.bind (Option.bind (lit p s) spaces1) identName of
        Some name \<Rightarrow> Some name
      | None \<Rightarrow> keywordName ps s)"

text \<open>The receiver \<^verbatim>\<open>\([^)]+\)\s+\<close> of a Go method.\<close>

definition receiver :: "string \<Rightarrow> string option" where
  "receiver s =
     (case lit ''('' s of
        None \<Rightarrow> None
      | Some r \<Rightarrow>
          (let inner = takeWhile (\<lambda>c. c \<noteq> CHR '')'') r;
               rest = dropWhile (\<lambda>c. c \<noteq> CHR '')'') r
           in if inner = [] \<or> rest = [] then None else spaces1 (tl rest)))"

definition goExported :: "string \<Rightarrow> string option" where
  "goExported s =
     (case Option.bind (lit ''func'' s) spaces1 of
        Some r \<Rightarrow>
          (case Option.bind (receiver r) identName of
             Some name \<Rightarrow> Some name
           | None \<Rightarrow> identName r)
      | None \<Rightarrow> keywordName [''type'', ''var'', ''const''] s)"

definition jsExported :: "string \<Rightarrow> string option" where
  "jsExported s =
     (case Option.bind (lit ''export'' s) spaces1 of
        None \<Rightarrow> None
      | Some r \<Rightarrow>
          (let kws = [''function'', ''class'', ''const'', ''let'', ''var'', ''interface'', ''type''] in
           case Option.bind (Option.bind (lit ''default'' r) spaces1) (keywordName kws) of
             Some name \<Rightarrow> Some name
           | None \<Rightarrow> keywordName kws r))"

definition rustExported :: "string \<Rightarrow> string option" where
  "rustExported s =
     (let kws = [''fn'', ''struct'', ''enum'', ''trait''] in
      case Option.bind (Option.bind (lit ''pub'' s) spaces1) (keywordName kws) of
        Some name \<Rightarrow> Some name
      | None \<Rightarrow> keywordName kws s)"

text \<open>The loop over the lines; \<open>names\<close> collects what the Go code puts into its set.\<close>

fun exportedLines :: "string list \<Rightarrow> char \<Rightarrow> string list \<Rightarrow> string list" where
  "exportedLines [] pre names = names"
| "exportedLines (line # lines) pre names =
     (if line = [] then exportedLines lines pre names
      else if hd line \<noteq> pre then exportedLines lines pre names
      else if isDiffHeader line then exportedLines lines pre names
      else let content = TrimSpace (tl line) in
        case goExported content of
          Some name \<Rightarrow> exportedLines lines pre (names @ [name])
        | None \<Rightarrow>
            (case jsExported content of
               Some name \<Rightarrow> exportedLines lines pre (names @ [name])
             | None \<Rightarrow>
                 (case rustExported content of
                    Some name \<Rightarrow> exportedLines lines pre (names @ [name])
                  | None \<Rightarrow> exportedLines lines pre names)))"

definition findExportedNames :: "string \<Rightarrow> char \<Rightarrow> string list" where
  "findExportedNames diff pre =
     (if diff = [] then [] else sort (remdups (exportedLines (Split diff LF) pre [])))"

subsection \<open>The commit type\<close>

record scan =
  counts :: "string \<Rightarrow> int"
  hasNewCodeFile :: bool
  hasPerfHint :: bool
  hasRefactorHint :: bool
  hasStyleHint :: bool

definition scanStart :: scan where
  "scanStart = \<lparr>counts = (\<lambda>cat. 0), hasNewCodeFile = False, hasPerfHint = False,
                hasRefactorHint = False, hasStyleHint = False\<rparr>"

text \<open>The body of the loop over the changes in \<^verbatim>\<open>detectType\<close>.\<close>

definition scanChange :: "(string \<Rightarrow> string) \<Rightarrow> Change \<Rightarrow> scan \<Rightarrow> scan" where
  "scanChange uni ch st =
     (let cat = categorizePath uni (Path ch);
          lower = ToLower uni (Path ch)
      in st\<lparr>counts := (counts st)(cat := counts st cat + 1),
             hasNewCodeFile := (hasNewCodeFile st \<or>
               (cat = catCode \<and> (Status ch = ''A'' \<or> Status ch = ''U'' \<or> Status ch = ''C''))),
             hasPerfHint := (hasPerfHint st \<or>
               (Contains lower ''perf'' \<or> Contains lower ''optimiz'')),
             hasRefactorHint := (hasRefactorHint st \<or>
               (Contains lower ''refactor'' \<or> Contains lower ''cleanup'')),
             hasStyleHint := (hasStyleHint st \<or>
               (Contains lower ''lint'' \<or> Contains lower ''format'' \<or> Contains lower ''style''))\<rparr>)"

fun scanChanges :: "(string \<Rightarrow> string) \<Rightarrow> Change list \<Rightarrow> scan \<Rightarrow> scan" where
  "scanChanges uni [] st = st"
| "scanChanges uni (ch # rest) st = scanChanges uni rest (scanChange uni ch st)"

definition detectType ::
  "(string \<Rightarrow> string) \<Rightarrow> Change list \<Rightarrow> string \<Rightarrow> Options \<Rightarrow> string \<times> string list" where
  "detectType uni changes diff opts =
     (if Type opts \<noteq> [] then (ToLower uni (Type opts), [''type override''])
      else let st = scanChanges uni changes scanStart in
        if counts st catCode = 0 then (dominantNonCode (counts st), [''only non-code files''])
        else if hasPerfHint st \<or> diffHasKeyword uni diff [''perf'', ''optimiz'', ''speed'']
          then (''perf'', [''performance hints''])
        else if hasRefactorHint st
             \<or> diffHasKeyword uni diff [''refactor'', ''cleanup'', ''restructure'']
          then (''refactor'', [''refactor hints''])
        else if hasStyleHint st \<or> diffHasKeyword uni diff [''format'', ''lint'', ''style'']
          then (''style'', [''style hints''])
        else if hasNewCodeFile st \<or> length (findExportedNames diff (CHR ''+'')) > 0
          then (''feat'', [''new code or exported symbols''])
        else (''fix'', [''defaulted to fix'']))"


subsection \<open>Scopes\<close>

text \<open>
  \<^verbatim>\<open>sanitizeScope\<close> trims and lower-cases a scope, replaces spaces by hyphens and keeps the
  characters \<^verbatim>\<open>a-z 0-9 - _ /\<close> only. Its last loop ranges over runes and keeps ASCII
  runes only, which on bytes is a filter: every byte of a longer or invalid rune is above
  0x7F.
\<close>

definition scopeChars :: string where
  "scopeChars = ''abcdefghijklmnopqrstuvwxyz0123456789-_/''"

definition sanitizeScope :: "(string \<Rightarrow> string) \<Rightarrow> string \<Rightarrow> string" where
  "sanitizeScope uni scope =
     (let scope = TrimSpace scope;
          scope = ToLower uni scope;
          scope = map (\<lambda>c. if c = CHR '' '' then CHR ''-'' else c) scope
      in filter (\<lambda>c. c \<in> set scopeChars) scope)"

section \<open>Composition (render.go)\<close>

subsection \<open>Runes\<close>

text \<open>
  \<^verbatim>\<open>[]rune(s)\<close> and \<^verbatim>\<open>utf8.DecodeRuneInString\<close> read a string as UTF-8: a rune is a code
  point (a natural number here), and a byte that starts no valid encoding is the rune
  U+FFFD of width 1. \<open>DecodeRuneInString\<close> returns the rune and its width in bytes.
\<close>

definition RuneError :: nat where
  "RuneError = 0xFFFD"

definition DecodeRuneInString :: "string \<Rightarrow> nat \<times> nat" where
  "DecodeRuneInString s =
     (case map of_char s of
        [] \<Rightarrow> (RuneError, 0)
      | b0 # rest \<Rightarrow>
          if b0 < 0x80 then (b0, 1)
          else if b0 < 0xC2 \<or> 0xF4 < b0 then (RuneError, 1)
          else
            let sz = (if b0 < 0xE0 then 2 else if b0 < 0xF0 then 3 else 4 :: nat);
                lo = (if b0 = 0xE0 then 0xA0 else if b0 = 0xF0 then 0x90 else 0x80);
                hi = (if b0 = 0xED then 0x9F else if b0 = 0xF4 then 0x8F else 0xBF)
            in
            if length s < sz then (RuneError, 1)
            else let b1 = rest ! 0 in
              if b1 < lo \<or> hi < b1 then (RuneError, 1)
              else if sz \<le> 2 then ((b0 mod 32) * 64 + b1 mod 64, 2)
              else let b2 = rest ! 1 in
                if b2 < 0x80 \<or> 0xBF < b2 then (RuneError, 1)
                else if sz \<le> 3
                  then ((b0 mod 16) * 4096 + (b1 mod 64) * 64 + b2 mod 64, 3)
                else let b3 = rest ! 2 in
                  if b3 < 0x80 \<or> 0xBF < b3 then (RuneError, 1)
                  else ((b0 mod 8) * 262144 + (b1 mod 64) * 4096
                          + (b2 mod 64) * 64 + b3 mod 64, 4))"

function runesOf :: "string \<Rightarrow> nat list" where
  "runesOf s =
     (if s = [] then []
      else fst (DecodeRuneInString s) # runesOf (drop (snd (DecodeRuneInString s)) s))"
  by pat_completeness auto
termination
proof (relation "measure length")
  show "wf (measure length)" by simp
next
  fix s :: string
  assume "s \<noteq> []"
  then have "0 < snd (DecodeRuneInString s)"
    by (cases s) (simp_all add: DecodeRuneInString_def Let_def)
  with \<open>s \<noteq> []\<close> show "(drop (snd (DecodeRuneInString s)) s, s) \<in> measure length"
    by simp
qed

declare runesOf.simps [simp del]

text \<open>
  \<^verbatim>\<open>string(r)\<close>: the UTF-8 encoding of a rune; a surrogate or a value above U+10FFFF is
  written as U+FFFD. \<open>stringOf\<close> is \<^verbatim>\<open>string(runes)\<close>.
\<close>

definition encodeRune :: "nat \<Rightarrow> string" where
  "encodeRune r =
     (if r < 0x80 then [char_of r]
      else if r < 0x800 then [char_of (0xC0 + r div 64), char_of (0x80 + r mod 64)]
      else if (0xD800 \<le> r \<and> r \<le> 0xDFFF) \<or> 0x10FFFF < r then [CHR 0xEF, CHR 0xBF, CHR 0xBD]
      else if r < 0x10000
        then [char_of (0xE0 + r div 4096), char_of (0x80 + (r div 64) mod 64),
              char_of (0x80 + r mod 64)]
      else [char_of (0xF0 + r div 262144), char_of (0x80 + (r div 4096) mod 64),
            char_of (0x80 + (r div 64) mod 64), char_of (0x80 + r mod 64)])"

definition stringOf :: "nat list \<Rightarrow> string" where
  "stringOf runes = concat (map encodeRune runes)"

subsection \<open>The subject\<close>

definition lowerFirst :: "(string \<Rightarrow> string) \<Rightarrow> string \<Rightarrow> string" where
  "lowerFirst uni s =
     (if s = [] then s
      else case DecodeRuneInString s of (r, width) \<Rightarrow>
        if r = RuneError then s
        else ToLower uni (encodeRune r) @ drop width s)"

text \<open>
  The loop \<^verbatim>\<open>for i := len(runes) - 1; i >= 0; i-- { if runes[i] == ' ' { cut = i; break } }\<close>:
  \<open>backtrack runes n cutAt\<close> (\<open>cutAt\<close> is the variable \<^verbatim>\<open>cut\<close>) has the indexes below \<open>n\<close> still to visit.
\<close>

fun backtrack :: "nat list \<Rightarrow> nat \<Rightarrow> nat \<Rightarrow> nat" where
  "backtrack runes 0 cutAt = cutAt"
| "backtrack runes (Suc i) cutAt = (if runes ! i = 0x20 then i else backtrack runes i cutAt)"

definition trimSubject :: "string \<Rightarrow> int \<Rightarrow> string" where
  "trimSubject s maxLen =
     (if maxLen \<le> 0 then s
      else let runes = runesOf s in
        if int (length runes) \<le> maxLen then s
        else let runes = take (nat maxLen) runes;
                 cutAt = backtrack runes (length runes) (length runes);
                 cutAt = (if cutAt < 3 then nat maxLen else cutAt)
             in TrimSpace (stringOf (take cutAt runes)))"

subsection \<open>The message\<close>

definition emojiCode :: "(string \<Rightarrow> string) \<Rightarrow> string \<Rightarrow> string" where
  "emojiCode uni commitType =
     (let t = ToLower uni commitType in
      if t = ''feat'' then '':sparkles:''
      else if t = ''fix'' then '':bug:''
      else if t = ''docs'' then '':memo:''
      else if t = ''style'' then '':art:''
      else if t = ''refactor'' then '':recycle:''
      else if t = ''perf'' then '':zap:''
      else if t = ''test'' then '':white_check_mark:''
      else if t = ''build'' then '':package:''
      else if t = ''ci'' then '':construction_worker:''
      else if t = ''chore'' then '':wrench:''
      else [])"

definition formatMessage ::
  "(string \<Rightarrow> string) \<Rightarrow> string \<Rightarrow> string \<Rightarrow> string \<Rightarrow> string \<Rightarrow> Options \<Rightarrow> bool \<Rightarrow> string" where
  "formatMessage uni commitType scope subject body opts breaking =
     (let prefixed = (Format opts = FormatConventional \<or> Format opts = FormatGitmoji);
          subj = (if prefixed then lowerFirst uni subject else subject);
          subj = trimSubject subj (MaxSubject opts);
          pre = (if prefixed
                 then ToLower uni commitType
                      @ (if scope \<noteq> [] then ''('' @ scope @ '')'' else [])
                      @ (if breaking then ''!'' else [])
                      @ '': ''
                 else []);
          pre = (if Emoji opts \<or> Format opts = FormatGitmoji
                 then (let code = emojiCode uni commitType
                       in if code \<noteq> [] then code @ '' '' @ pre else pre)
                 else pre);
          msg = pre @ subj
      in if body \<noteq> [] then msg @ [LF, LF] @ body else msg)"

subsection \<open>The summary line\<close>












chapter \<open>Notions for the statements\<close>

section \<open>Inputs for the examples\<close>

text \<open>
  The options of a run without flags (the defaults of \<^verbatim>\<open>parseFlags\<close> and \<^verbatim>\<open>run\<close>), and a
  staged change with a status and a path. The examples use ASCII text, on which
  \<^verbatim>\<open>strings.ToLower\<close> never consults the Unicode tables, so they pass \<open>id\<close> for \<open>uni\<close>.
\<close>

definition defaultOptions :: Options where
  "defaultOptions = \<lparr>Format = FormatConventional, Lang = ''en'', Type = [], Scope = [],
     Breaking = False, MaxItems = 8, MaxSubject = 72, Emoji = False\<rparr>"

definition change :: "string \<Rightarrow> string \<Rightarrow> Change" where
  "change status path = \<lparr>Path = path, OldPath = [], Status = status, Source = ModeStaged\<rparr>"

section \<open>Counting\<close>

text \<open>The number of changes whose path falls into category \<open>cat\<close>.\<close>

definition categoryCount :: "(string \<Rightarrow> string) \<Rightarrow> Change list \<Rightarrow> string \<Rightarrow> nat" where
  "categoryCount uni changes cat =
     length (filter (\<lambda>ch. categorizePath uni (Path ch) = cat) changes)"


section \<open>The specification's reading of two steps\<close>

text \<open>
  The specification's reading of the keyword scan: a line of the diff qualifies when it
  starts with \<^verbatim>\<open>+\<close> or \<^verbatim>\<open>-\<close> and is no diff header, and the diff mentions a keyword when
  the lower-cased, trimmed content of a qualifying line contains it. For lower-case
  keywords \<^verbatim>\<open>diffHasKeyword\<close> computes exactly this (\<open>diffHasKeyword_iff\<close>).
\<close>

definition qualifies :: "string \<Rightarrow> bool" where
  "qualifies line =
     (line \<noteq> [] \<and> (hd line = CHR ''+'' \<or> hd line = CHR ''-'') \<and> \<not> isDiffHeader line)"

definition diffMentions :: "(string \<Rightarrow> string) \<Rightarrow> string \<Rightarrow> string list \<Rightarrow> bool" where
  "diffMentions uni diff keywords =
     (\<exists>line \<in> set (Split diff LF). qualifies line
        \<and> (\<exists>kw \<in> set keywords. Contains (ToLower uni (TrimSpace (tl line))) kw))"


section \<open>Commit types, sanitized scopes and a reader for the prefix\<close>

text \<open>
  The commit types of a classification result, and what \<^verbatim>\<open>sanitizeScope\<close> leaves of a
  scope: characters of \<open>scopeChars\<close> only.
\<close>

definition commitTypes :: "string list" where
  "commitTypes = [''feat'', ''fix'', ''docs'', ''style'', ''refactor'', ''perf'', ''test'',
                  ''build'', ''ci'', ''chore'']"

definition sanitized :: "string \<Rightarrow> bool" where
  "sanitized scope = (\<forall>c \<in> set scope. c \<in> set scopeChars)"

text \<open>
  The repository writes messages and has no function that reads one back. To state the
  round trip, \<open>parsePrefix\<close> reads the prefix as section 4.4 of the specification
  describes it, \<^verbatim>\<open>[:code: ]type[(scope)][!]: \<close>: \<open>skipEmoji\<close> drops an emoji code and the
  space after it; \<open>parseHeader\<close> reads the type (lower-case letters), a scope in parentheses
  and the mark \<^verbatim>\<open>!\<close>, and requires the colon and the space.
\<close>

definition isLowerLetter :: "char \<Rightarrow> bool" where
  "isLowerLetter c = (c \<in> set ''abcdefghijklmnopqrstuvwxyz'')"

definition skipEmoji :: "string \<Rightarrow> string" where
  "skipEmoji msg =
     (if msg \<noteq> [] \<and> hd msg = CHR '':'' then drop 1 (dropWhile (\<lambda>c. c \<noteq> CHR '' '') msg)
      else msg)"

definition parseHeader :: "string \<Rightarrow> (string \<times> string \<times> bool) option" where
  "parseHeader m =
     (let ty = takeWhile isLowerLetter m;
          r1 = dropWhile isLowerLetter m;
          scoped = (r1 \<noteq> [] \<and> hd r1 = CHR ''('');
          scope = (if scoped then takeWhile (\<lambda>c. c \<noteq> CHR '')'') (tl r1) else []);
          r2 = (if scoped then drop 1 (dropWhile (\<lambda>c. c \<noteq> CHR '')'') (tl r1)) else r1);
          breaking = (r2 \<noteq> [] \<and> hd r2 = CHR ''!'');
          r3 = (if breaking then tl r2 else r2)
      in if HasPrefix r3 '': '' then Some (ty, scope, breaking) else None)"

definition parsePrefix :: "string \<Rightarrow> (string \<times> string \<times> bool) option" where
  "parsePrefix msg = parseHeader (skipEmoji msg)"

section \<open>Invariants of the loops\<close>

text \<open>
  The loop reads the fields from the cursor on only, so fields before the cursor do not
  matter: \<open>shiftStep\<close> moves the cursor of a step by the length of such a prefix.
\<close>

fun shiftStep :: "nat \<Rightarrow> step \<Rightarrow> step" where
  "shiftStep k Break = Break"
| "shiftStep k (Continue j out) = Continue (k + j) out"

text \<open>
  \<open>keyed\<close> is the invariant of the map \<^verbatim>\<open>byPath\<close>: its keys are distinct and every record
  is stored under its own path.
\<close>

definition keyed :: "(string \<times> Change) list \<Rightarrow> bool" where
  "keyed m = (distinct (map fst m) \<and> (\<forall>(k, v) \<in> set m. Path v = k))"



chapter \<open>Properties\<close>

section \<open>Change extraction\<close>

lemma HasPrefix_length: "HasPrefix s p \<Longrightarrow> length p \<le> length s"
  by (induction s p rule: HasPrefix.induct) auto

lemma headSeq_le: "headSeq seqs s \<le> length s"
  by (induction seqs) (auto dest: HasPrefix_length)

subsection \<open>Facts about the name-status parser\<close>

lemma index_Inr: "i < length xs \<Longrightarrow> index xs i = Inr (xs ! i)"
  by (simp add: index_def)

lemma Contains_single: "Contains s [c] \<longleftrightarrow> c \<in> set s"
  by (induction s) auto

lemma SplitN_two_notin: "sep \<notin> set s \<Longrightarrow> SplitN s sep 2 = [s]"
  by (induction s) (auto simp: numeral_2_eq_2)

lemma SplitN_two_in: "sep \<notin> set a \<Longrightarrow> SplitN (a @ sep # b) sep 2 = [a, b]"
  by (induction a) (auto simp: numeral_2_eq_2)

lemma SplitN_two_length: "sep \<in> set s \<Longrightarrow> length (SplitN s sep 2) = 2"
  by (induction s) (auto simp: numeral_2_eq_2 SplitN_two_notin split: list.splits)

lemma parseTabbed_ok: "\<exists>st. parseTabbed flds source i out entry = Inr st"
  by (cases "length (SplitN entry TAB 2) < 2")
     (auto simp: parseTabbed_def Let_def index_def)

lemma parseBare_ok: "\<exists>st. parseBare flds source i out entry = Inr st"
  by (simp add: parseBare_def Let_def index_def)

lemma parseEntry_ok: "i < length flds \<Longrightarrow> \<exists>st. parseEntry flds source i out = Inr st"
  by (simp add: parseEntry_def index_def parseTabbed_ok parseBare_ok)

lemma parseEntry_keeps:
  "parseEntry flds source i out = Inr (Continue j out') \<Longrightarrow> \<exists>ys. out' = out @ ys"
  by (auto simp: parseEntry_def parseTabbed_def parseBare_def Let_def
      split: sum.splits if_splits)

lemma loop_total: "\<exists>r. parseNameStatusLoop flds source i out = Inr r"
proof (induction flds source i out rule: parseNameStatusLoop.induct)
  case (1 flds source i out)
  show ?case
  proof (cases "i < length flds")
    case False
    then show ?thesis by (simp add: parseNameStatusLoop.simps)
  next
    case True
    then obtain st where st: "parseEntry flds source i out = Inr st"
      using parseEntry_ok by blast
    show ?thesis
    proof (cases st)
      case Break
      with st True show ?thesis by (simp add: parseNameStatusLoop.simps)
    next
      case (Continue j out')
      with st True 1 show ?thesis by (simp add: parseNameStatusLoop.simps [of flds source i out])
    qed
  qed
qed

lemma loop_keeps: "parseNameStatusLoop flds source i out = Inr r \<Longrightarrow> \<exists>ys. r = out @ ys"
proof (induction flds source i out rule: parseNameStatusLoop.induct)
  case (1 flds source i out)
  show ?case
  proof (cases "i < length flds")
    case False
    with 1(2) show ?thesis by (simp add: parseNameStatusLoop.simps)
  next
    case True
    then obtain st where st: "parseEntry flds source i out = Inr st"
      using parseEntry_ok by blast
    show ?thesis
    proof (cases st)
      case Break
      with st True 1(2) show ?thesis by (simp add: parseNameStatusLoop.simps)
    next
      case (Continue j out')
      with st True 1(2) have "parseNameStatusLoop flds source j out' = Inr r"
        by (simp add: parseNameStatusLoop.simps [of flds source i out])
      with 1(1) True st Continue obtain ys where "r = out' @ ys" by blast
      moreover from st Continue obtain zs where "out' = out @ zs"
        using parseEntry_keeps by blast
      ultimately show ?thesis by simp
    qed
  qed
qed

lemma index_append_shift: "index (pre @ xs) (length pre + i) = index xs i"
  by (simp add: index_def)

lemma index_append_shift': "index (pre @ xs) (Suc (length pre + i)) = index xs (Suc i)"
  using index_append_shift [of pre xs "Suc i"] by simp

lemma index_append_shift'': "index (pre @ xs) (Suc (Suc (length pre + i))) = index xs (Suc (Suc i))"
  using index_append_shift [of pre xs "Suc (Suc i)"] by simp

lemma parseTabbed_shift:
  "parseTabbed (pre @ flds) source (length pre + i) out entry =
   map_sum id (shiftStep (length pre)) (parseTabbed flds source i out entry)"
  by (cases "length (SplitN entry TAB 2) < 2")
    (auto simp: parseTabbed_def Let_def index_append_shift' split: sum.splits)

lemma parseBare_shift:
  "parseBare (pre @ flds) source (length pre + i) out entry =
   map_sum id (shiftStep (length pre)) (parseBare flds source i out entry)"
  by (auto simp: parseBare_def Let_def index_append_shift' index_append_shift'' split: sum.splits)

lemma parseEntry_shift:
  "parseEntry (pre @ flds) source (length pre + i) out =
   map_sum id (shiftStep (length pre)) (parseEntry flds source i out)"
  by (auto simp: parseEntry_def index_append_shift parseTabbed_shift parseBare_shift split: sum.splits)

lemma loop_shift:
  "parseNameStatusLoop (pre @ flds) source (length pre + i) out =
   parseNameStatusLoop flds source i out"
proof (induction flds source i out rule: parseNameStatusLoop.induct)
  case (1 flds source i out)
  show ?case
  proof (cases "i < length flds")
    case False
    then show ?thesis
      by (simp add: parseNameStatusLoop.simps [of flds] parseNameStatusLoop.simps [of "pre @ flds"])
  next
    case True
    then obtain st where st: "parseEntry flds source i out = Inr st"
      using parseEntry_ok by blast
    hence st': "parseEntry (pre @ flds) source (length pre + i) out = Inr (shiftStep (length pre) st)"
      by (simp add: parseEntry_shift)
    show ?thesis
    proof (cases st)
      case Break
      with st st' True show ?thesis
        by (simp add: parseNameStatusLoop.simps [of flds] parseNameStatusLoop.simps [of "pre @ flds"])
    next
      case (Continue j out')
      with 1 True st have "parseNameStatusLoop (pre @ flds) source (length pre + j) out' =
        parseNameStatusLoop flds source j out'" by simp
      with Continue st st' True show ?thesis
        by (simp add: parseNameStatusLoop.simps [of flds source i] parseNameStatusLoop.simps [of "pre @ flds" source "length pre + i"])
    qed
  qed
qed

lemma statusCharOf_RC: "statusCharOf st = ''R'' \<or> statusCharOf st = ''C'' \<Longrightarrow> st \<noteq> []"
  by (auto simp: statusCharOf_def)

lemma parseEntry_tabbed_rename:
  assumes rc: "statusCharOf st = ''R'' \<or> statusCharOf st = ''C''"
    and tab: "TAB \<notin> set st"
  shows "parseEntry ((st @ TAB # old) # new # rest) source 0 out =
    Inr (Continue 2 (out @ [\<lparr>Path = new, OldPath = old, Status = statusCharOf st, Source = source\<rparr>]))"
  using rc tab
  by (simp add: parseEntry_def index_def Contains_single parseTabbed_def SplitN_two_in Let_def)

lemma parseEntry_bare_rename:
  assumes rc: "statusCharOf st = ''R'' \<or> statusCharOf st = ''C''"
    and tab: "TAB \<notin> set st" and ne: "old \<noteq> []" "new \<noteq> []"
  shows "parseEntry (st # old # new # rest) source 0 out =
    Inr (Continue 3 (out @ [\<lparr>Path = new, OldPath = old, Status = statusCharOf st, Source = source\<rparr>]))"
  using rc tab ne statusCharOf_RC [OF rc]
  by (simp add: parseEntry_def index_def Contains_single parseBare_def Let_def)

lemma loop_drop:
  "k \<le> length flds \<Longrightarrow> parseNameStatusLoop flds source k out = parseNameStatusLoop (drop k flds) source 0 out"
  using loop_shift [of "take k flds" "drop k flds" source 0 out] by (simp add: min_absorb2)

lemma loop_tabbed_rename:
  assumes rc: "statusCharOf st = ''R'' \<or> statusCharOf st = ''C''"
    and tab: "TAB \<notin> set st"
  shows "parseNameStatusLoop ((st @ TAB # old) # new # rest) source 0 out =
    parseNameStatusLoop rest source 0
      (out @ [\<lparr>Path = new, OldPath = old, Status = statusCharOf st, Source = source\<rparr>])"
  using parseEntry_tabbed_rename [OF rc tab, of old new rest source out]
    loop_drop [of 2 "(st @ TAB # old) # new # rest" source]
  by (simp add: parseNameStatusLoop.simps [of "(st @ TAB # old) # new # rest" source 0])

lemma loop_bare_rename:
  assumes rc: "statusCharOf st = ''R'' \<or> statusCharOf st = ''C''"
    and tab: "TAB \<notin> set st" and ne: "old \<noteq> []" "new \<noteq> []"
  shows "parseNameStatusLoop (st # old # new # rest) source 0 out =
    parseNameStatusLoop rest source 0
      (out @ [\<lparr>Path = new, OldPath = old, Status = statusCharOf st, Source = source\<rparr>])"
  using parseEntry_bare_rename [OF rc tab ne, of rest source out]
    loop_drop [of 3 "st # old # new # rest" source]
  by (simp add: parseNameStatusLoop.simps [of "st # old # new # rest" source 0])

lemma Split_append: "sep \<notin> set a \<Longrightarrow> Split (a @ sep # b) sep = a # Split b sep"
  by (induction a) auto

lemma Split_notin: "sep \<notin> set a \<Longrightarrow> Split a sep = [a]"
  by (induction a) auto


subsection \<open>Rename and copy records in both physical shapes\<close>

text \<open>
  Claim C5. A rename or copy record has a status field that starts with \<open>R\<close> or \<open>C\<close>
  (\<open>statusCharOf st\<close> is that first character, whatever similarity percentage follows it)
  and two non-empty paths. Written as \<^verbatim>\<open>status<TAB>old NUL new NUL\<close> or as
  \<^verbatim>\<open>status NUL old NUL new NUL\<close>, in front of any further input \<open>tail\<close>,
  \<^verbatim>\<open>parseNameStatus\<close> returns the same result, which starts with the record
  \<open>{Path = new, OldPath = old}\<close> whose status is the first character alone. The same holds
  inside the loop at every cursor position and for every list of records read so far.
\<close>

theorem parseNameStatus_shape_invariance:
  assumes rc: "statusCharOf st = ''R'' \<or> statusCharOf st = ''C''"
    and st: "TAB \<notin> set st" "NUL \<notin> set st"
    and old: "old \<noteq> []" "NUL \<notin> set old"
    and new: "new \<noteq> []" "NUL \<notin> set new"
  shows "parseNameStatus (st @ TAB # old @ NUL # new @ NUL # tail) source =
           parseNameStatus (st @ NUL # old @ NUL # new @ NUL # tail) source
       \<and> (\<exists>rest. parseNameStatus (st @ NUL # old @ NUL # new @ NUL # tail) source =
            Inr (\<lparr>Path = new, OldPath = old, Status = statusCharOf st, Source = source\<rparr> # rest))
       \<and> parseNameStatusLoop (pre @ (st @ TAB # old) # new # flds) source (length pre) out =
           parseNameStatusLoop (pre' @ st # old # new # flds) source (length pre') out"
proof -
  let ?rec = "\<lparr>Path = new, OldPath = old, Status = statusCharOf st, Source = source\<rparr>"
  let ?after = "parseNameStatusLoop (Split tail NUL) source 0 [?rec]"
  have tabbed: "Split (st @ TAB # old @ NUL # new @ NUL # tail) NUL =
      (st @ TAB # old) # new # Split tail NUL"
  proof -
    have "NUL \<notin> set (st @ TAB # old)" using st old by simp
    from Split_append [OF this, of "new @ NUL # tail"] Split_append [OF new(2), of tail]
    show ?thesis by simp
  qed
  have bare: "Split (st @ NUL # old @ NUL # new @ NUL # tail) NUL =
      st # old # new # Split tail NUL"
    using Split_append [OF st(2), of "old @ NUL # new @ NUL # tail"]
      Split_append [OF old(2), of "new @ NUL # tail"] Split_append [OF new(2), of tail]
    by simp
  have one: "parseNameStatus (st @ TAB # old @ NUL # new @ NUL # tail) source = ?after"
    using loop_tabbed_rename [OF rc st(1), of old new "Split tail NUL" source "[]"]
    by (simp add: parseNameStatus_def tabbed)
  have two: "parseNameStatus (st @ NUL # old @ NUL # new @ NUL # tail) source = ?after"
    using loop_bare_rename [OF rc st(1) old(1) new(1), of "Split tail NUL" source "[]"]
    by (simp add: parseNameStatus_def bare)
  obtain r where r: "?after = Inr r" using loop_total by blast
  then obtain ys where "r = [?rec] @ ys" using loop_keeps by blast
  with r two have three: "\<exists>rest. parseNameStatus (st @ NUL # old @ NUL # new @ NUL # tail) source =
      Inr (?rec # rest)" by simp
  have "parseNameStatusLoop (pre @ (st @ TAB # old) # new # flds) source (length pre) out =
      parseNameStatusLoop flds source 0 (out @ [?rec])"
    using loop_shift [of pre "(st @ TAB # old) # new # flds" source 0 out]
      loop_tabbed_rename [OF rc st(1), of old new flds source out] by simp
  moreover have "parseNameStatusLoop (pre' @ st # old # new # flds) source (length pre') out =
      parseNameStatusLoop flds source 0 (out @ [?rec])"
    using loop_shift [of pre' "st # old # new # flds" source 0 out]
      loop_bare_rename [OF rc st(1) old(1) new(1), of flds source out] by simp
  ultimately show ?thesis using one two three by simp
qed

text \<open>The rename \<^verbatim>\<open>R100 a.go -> b.go\<close> in both shapes, evaluated.\<close>

theorem parseNameStatus_shape_invariance_witness:
  "parseNameStatus (''R100'' @ TAB # ''a.go'' @ NUL # ''b.go'' @ NUL # []) ModeStaged =
     parseNameStatus (''R100'' @ NUL # ''a.go'' @ NUL # ''b.go'' @ NUL # []) ModeStaged
   \<and> parseNameStatus (''R100'' @ NUL # ''a.go'' @ NUL # ''b.go'' @ NUL # []) ModeStaged =
     Inr [\<lparr>Path = ''b.go'', OldPath = ''a.go'', Status = ''R'', Source = ModeStaged\<rparr>]"
proof -
  have rc: "statusCharOf ''R100'' = ''R'' \<or> statusCharOf ''R100'' = ''C''"
    by (simp add: statusCharOf_def)
  have eq: "parseNameStatus (''R100'' @ TAB # ''a.go'' @ NUL # ''b.go'' @ NUL # []) ModeStaged =
     parseNameStatus (''R100'' @ NUL # ''a.go'' @ NUL # ''b.go'' @ NUL # []) ModeStaged"
    using parseNameStatus_shape_invariance [OF rc, of "''a.go''" "''b.go''" "[]" ModeStaged "[]" "[]" "[]" "[]"]
    by simp
  have "parseNameStatus (''R100'' @ NUL # ''a.go'' @ NUL # ''b.go'' @ NUL # []) ModeStaged =
     Inr [\<lparr>Path = ''b.go'', OldPath = ''a.go'', Status = ''R'', Source = ModeStaged\<rparr>]"
    by (simp add: parseNameStatus_def parseNameStatusLoop.simps parseEntry_def parseBare_def
        index_def statusCharOf_def Let_def)
  with eq show ?thesis by simp
qed


subsection \<open>Truncated input\<close>




subsection \<open>The untracked listing\<close>

lemma parseUntrackedLoop_eq:
  "parseUntrackedLoop fs out =
     out @ map (\<lambda>f. \<lparr>Path = TrimSpace f, OldPath = [], Status = ''U'', Source = ModeUnstaged\<rparr>)
             (filter (\<lambda>f. TrimSpace f \<noteq> []) fs)"
  by (induction fs arbitrary: out) (simp_all add: Let_def)

lemma headSeq_Nil: "headSeq seqs [] = 0"
  using headSeq_le [of seqs "[]"] by simp

lemma TrimSpace_Nil: "TrimSpace [] = []"
  by (simp add: TrimSpace_def stripLeading.simps [of _ "[]"] headSeq_Nil)

lemma TrimSpace_example_leading: "TrimSpace '' a.go'' = ''a.go''"
  by (simp add: TrimSpace_def stripLeading.simps spaceRunes_def)

lemma TrimSpace_example_plain: "TrimSpace ''a.go'' = ''a.go''"
  by (simp add: TrimSpace_def stripLeading.simps spaceRunes_def)

text \<open>
  Claim C9, as the specification states it: one record per non-empty entry, whose path is
  that entry. The code trims each entry with \<^verbatim>\<open>strings.TrimSpace\<close> first: the entry
  \<^verbatim>\<open>" a.go"\<close> gives a record whose path is \<^verbatim>\<open>"a.go"\<close>.
\<close>

theorem parseUntracked_counterexample:
  "Split ('' a.go'' @ [NUL]) NUL = ['' a.go'', []]
   \<and> parseUntracked ('' a.go'' @ [NUL]) =
       [\<lparr>Path = ''a.go'', OldPath = [], Status = ''U'', Source = ModeUnstaged\<rparr>]"
  by (simp add: parseUntracked_def Let_def TrimSpace_example_leading TrimSpace_Nil)

text \<open>
  Claim C9, amended. \<^verbatim>\<open>parseUntracked\<close> splits at NUL and returns, in order, one record
  for each entry that is not empty after \<^verbatim>\<open>strings.TrimSpace\<close>; its path is the trimmed
  entry, its status \<open>U\<close>, its origin \<^verbatim>\<open>ModeUnstaged\<close>. When no entry has surrounding white
  space, that is one record per non-empty entry with the entry as its path.
\<close>

theorem parseUntracked_trimmed:
  "parseUntracked data =
     map (\<lambda>f. \<lparr>Path = TrimSpace f, OldPath = [], Status = ''U'', Source = ModeUnstaged\<rparr>)
       (filter (\<lambda>f. TrimSpace f \<noteq> []) (Split data NUL))
   \<and> ((\<forall>f \<in> set (Split data NUL). TrimSpace f = f) \<longrightarrow>
       parseUntracked data =
         map (\<lambda>f. \<lparr>Path = f, OldPath = [], Status = ''U'', Source = ModeUnstaged\<rparr>)
           (filter (\<lambda>f. f \<noteq> []) (Split data NUL)))"
proof -
  have main: "parseUntracked data =
     map (\<lambda>f. \<lparr>Path = TrimSpace f, OldPath = [], Status = ''U'', Source = ModeUnstaged\<rparr>)
       (filter (\<lambda>f. TrimSpace f \<noteq> []) (Split data NUL))"
  proof (cases "data = []")
    case True
    then show ?thesis by (simp add: parseUntracked_def TrimSpace_Nil)
  next
    case False
    then show ?thesis by (simp add: parseUntracked_def parseUntrackedLoop_eq)
  qed
  moreover have "parseUntracked data =
         map (\<lambda>f. \<lparr>Path = f, OldPath = [], Status = ''U'', Source = ModeUnstaged\<rparr>)
           (filter (\<lambda>f. f \<noteq> []) (Split data NUL))"
    if same: "\<forall>f \<in> set (Split data NUL). TrimSpace f = f"
  proof -
    have "filter (\<lambda>f. TrimSpace f \<noteq> []) (Split data NUL) = filter (\<lambda>f. f \<noteq> []) (Split data NUL)"
      using same by (intro filter_cong) auto
    moreover have "map (\<lambda>f. \<lparr>Path = TrimSpace f, OldPath = [], Status = ''U'', Source = ModeUnstaged\<rparr>)
        (filter (\<lambda>f. f \<noteq> []) (Split data NUL)) =
      map (\<lambda>f. \<lparr>Path = f, OldPath = [], Status = ''U'', Source = ModeUnstaged\<rparr>)
        (filter (\<lambda>f. f \<noteq> []) (Split data NUL))"
      using same by (intro map_cong) auto
    ultimately show ?thesis using main by simp
  qed
  ultimately show ?thesis by blast
qed

text \<open>Two listings, the first with an entry that has surrounding white space.\<close>

theorem parseUntracked_trimmed_witness:
  "parseUntracked (''a.go'' @ NUL # '' b c.txt '' @ [NUL]) =
     [\<lparr>Path = ''a.go'', OldPath = [], Status = ''U'', Source = ModeUnstaged\<rparr>,
      \<lparr>Path = ''b c.txt'', OldPath = [], Status = ''U'', Source = ModeUnstaged\<rparr>]
   \<and> parseUntracked (''a.go'' @ [NUL]) =
     [\<lparr>Path = ''a.go'', OldPath = [], Status = ''U'', Source = ModeUnstaged\<rparr>]"
proof -
  have t3: "TrimSpace '' b c.txt '' = ''b c.txt''"
    by (simp add: TrimSpace_def stripLeading.simps spaceRunes_def)
  have a: "parseUntracked (''a.go'' @ NUL # '' b c.txt '' @ [NUL]) =
     [\<lparr>Path = ''a.go'', OldPath = [], Status = ''U'', Source = ModeUnstaged\<rparr>,
      \<lparr>Path = ''b c.txt'', OldPath = [], Status = ''U'', Source = ModeUnstaged\<rparr>]"
    using parseUntracked_trimmed [of "''a.go'' @ NUL # '' b c.txt '' @ [NUL]"]
    by (simp add: TrimSpace_example_plain t3 TrimSpace_Nil)
  have "\<forall>f \<in> set (Split (''a.go'' @ [NUL]) NUL). TrimSpace f = f"
    by (simp add: TrimSpace_example_plain TrimSpace_Nil)
  with parseUntracked_trimmed [of "''a.go'' @ [NUL]"]
  have "parseUntracked (''a.go'' @ [NUL]) =
     [\<lparr>Path = ''a.go'', OldPath = [], Status = ''U'', Source = ModeUnstaged\<rparr>]"
    by simp
  with a show ?thesis by simp
qed

subsection \<open>Merging staged and unstaged changes\<close>

lemma set_update_subset: "(k', v') \<in> set (AList.update k v m) \<Longrightarrow> (k', v') = (k, v) \<or> (k', v') \<in> set m"
  by (induction m) (auto split: if_splits)

lemma keyed_update: "keyed m \<Longrightarrow> Path v = k \<Longrightarrow> keyed (AList.update k v m)"
  unfolding keyed_def by (auto simp: distinct_update dest!: set_update_subset)

lemma keyed_seedChanges: "keyed m \<Longrightarrow> keyed (seedChanges xs m)"
  by (induction xs arbitrary: m) (simp_all add: keyed_update)

lemma keyed_lookup: "keyed m \<Longrightarrow> map_of m k = Some v \<Longrightarrow> Path v = k"
  unfolding keyed_def by (auto dest: map_of_SomeD)

lemma keyed_mergeUnstaged: "keyed m \<Longrightarrow> keyed (mergeUnstaged us m)"
proof (induction us arbitrary: m)
  case Nil
  then show ?case by simp
next
  case (Cons u us)
  show ?case
  proof (cases "map_of m (Path u)")
    case None
    with Cons show ?thesis by (simp add: keyed_update)
  next
    case (Some e)
    with Cons.prems have "Path (e\<lparr>Source := ModeAll\<rparr>) = Path u" using keyed_lookup by simp
    with Cons Some show ?thesis by (simp add: keyed_update)
  qed
qed

lemma map_of_seedChanges:
  "map_of (seedChanges xs m) p =
     (case filter (\<lambda>c. Path c = p) xs of [] \<Rightarrow> map_of m p | y # ys \<Rightarrow> Some (last (y # ys)))"
proof (induction xs arbitrary: m)
  case Nil
  then show ?case by simp
next
  case (Cons x xs)
  show ?case
    by (cases "filter (\<lambda>c. Path c = p) xs") (auto simp: Cons update_conv')
qed

lemma map_of_mergeUnstaged:
  "map_of (mergeUnstaged us m) p =
     (case map_of m p of
        Some e \<Rightarrow> Some (if \<exists>u \<in> set us. Path u = p then e\<lparr>Source := ModeAll\<rparr> else e)
      | None \<Rightarrow> (case filter (\<lambda>c. Path c = p) us of
                   [] \<Rightarrow> None
                 | u # _ \<Rightarrow> Some (u\<lparr>Source := ModeAll\<rparr>)))"
proof (induction us arbitrary: m)
  case Nil
  then show ?case by (simp split: option.splits)
next
  case (Cons u us)
  show ?case
  proof (cases "map_of m (Path u)")
    case None
    then show ?thesis
      by (cases "Path u = p") (auto simp: Cons update_conv' split: option.splits list.splits)
  next
    case (Some e)
    then show ?thesis
      by (cases "Path u = p") (auto simp: Cons update_conv' split: option.splits list.splits)
  qed
qed

lemma keyed_filter:
  "keyed m \<Longrightarrow> filter (\<lambda>r. Path r = p) (map snd m) = (case map_of m p of None \<Rightarrow> [] | Some v \<Rightarrow> [v])"
proof (induction m)
  case Nil
  then show ?case by simp
next
  case (Cons kv m)
  obtain k v where kv: "kv = (k, v)" by (cases kv)
  from Cons.prems kv have km: "keyed m" and pv: "Path v = k" and fresh: "k \<notin> fst ` set m"
    by (auto simp: keyed_def)
  from fresh have none: "map_of m k = None" by (simp add: map_of_eq_None_iff)
  show ?case
  proof (cases "k = p")
    case True
    with Cons.IH [OF km] none kv pv show ?thesis by simp
  next
    case False
    with Cons.IH [OF km] kv pv show ?thesis by simp
  qed
qed

text \<open>
  Claim C6. When path \<open>p\<close> occurs in the staged and in the unstaged list, the merge holds
  exactly one record for \<open>p\<close>: the staged record for \<open>p\<close> (the last one, should the staged
  list name \<open>p\<close> more than once) with its origin rewritten to \<^verbatim>\<open>ModeAll\<close> and every other
  field, the status among them, unchanged. In particular, if \<open>p\<close> is staged with status
  \<open>M\<close>, the merged record has status \<open>M\<close> and origin \<^verbatim>\<open>ModeAll\<close>, whatever the unstaged status.
\<close>

theorem mergeChanges_staged_wins:
  assumes st: "\<exists>s \<in> set staged. Path s = p"
    and un: "\<exists>u \<in> set unstaged. Path u = p"
  shows "filter (\<lambda>r. Path r = p) (mergeChanges staged unstaged) =
           [(last (filter (\<lambda>s. Path s = p) staged))\<lparr>Source := ModeAll\<rparr>]
       \<and> ((\<forall>s \<in> set staged. Path s = p \<longrightarrow> Status s = ''M'') \<longrightarrow>
          (\<forall>r \<in> set (mergeChanges staged unstaged). Path r = p \<longrightarrow>
             Status r = ''M'' \<and> Source r = ModeAll))"
proof -
  let ?m = "mergeUnstaged unstaged (seedChanges staged [])"
  let ?ss = "filter (\<lambda>s. Path s = p) staged"
  have "keyed []" by (simp add: keyed_def)
  then have k: "keyed ?m" by (intro keyed_mergeUnstaged keyed_seedChanges)
  from st have ne: "?ss \<noteq> []" by (auto simp: filter_empty_conv)
  then have seed: "map_of (seedChanges staged []) p = Some (last ?ss)"
    by (cases ?ss) (simp_all add: map_of_seedChanges)
  with un have look: "map_of ?m p = Some ((last ?ss)\<lparr>Source := ModeAll\<rparr>)"
    by (simp add: map_of_mergeUnstaged)
  with keyed_filter [OF k, of p]
  have one: "filter (\<lambda>r. Path r = p) (mergeChanges staged unstaged) =
      [(last ?ss)\<lparr>Source := ModeAll\<rparr>]"
    by (simp add: mergeChanges_def)
  have two: "\<forall>r \<in> set (mergeChanges staged unstaged). Path r = p \<longrightarrow>
      Status r = ''M'' \<and> Source r = ModeAll"
    if allM: "\<forall>s \<in> set staged. Path s = p \<longrightarrow> Status s = ''M''"
  proof (intro ballI impI)
    fix r assume "r \<in> set (mergeChanges staged unstaged)" and "Path r = p"
    then have "r \<in> set (filter (\<lambda>r. Path r = p) (mergeChanges staged unstaged))" by simp
    with one have r: "r = (last ?ss)\<lparr>Source := ModeAll\<rparr>" by simp
    from ne have "last ?ss \<in> set ?ss" by (rule last_in_set)
    then have "Status (last ?ss) = ''M''" using allM by simp
    with r show "Status r = ''M'' \<and> Source r = ModeAll" by simp
  qed
  from one two show ?thesis by blast
qed

text \<open>\<^verbatim>\<open>a.go\<close> staged as modified and unstaged as deleted; \<^verbatim>\<open>b.go\<close> only unstaged.\<close>

theorem mergeChanges_staged_wins_witness:
  "filter (\<lambda>r. Path r = ''a.go'')
     (mergeChanges
        [\<lparr>Path = ''a.go'', OldPath = [], Status = ''M'', Source = ModeStaged\<rparr>]
        [\<lparr>Path = ''b.go'', OldPath = [], Status = ''M'', Source = ModeUnstaged\<rparr>,
         \<lparr>Path = ''a.go'', OldPath = [], Status = ''D'', Source = ModeUnstaged\<rparr>]) =
   [\<lparr>Path = ''a.go'', OldPath = [], Status = ''M'', Source = ModeAll\<rparr>]
   \<and> mergeChanges
        [\<lparr>Path = ''a.go'', OldPath = [], Status = ''M'', Source = ModeStaged\<rparr>]
        [\<lparr>Path = ''b.go'', OldPath = [], Status = ''M'', Source = ModeUnstaged\<rparr>,
         \<lparr>Path = ''a.go'', OldPath = [], Status = ''D'', Source = ModeUnstaged\<rparr>] =
   [\<lparr>Path = ''a.go'', OldPath = [], Status = ''M'', Source = ModeAll\<rparr>,
    \<lparr>Path = ''b.go'', OldPath = [], Status = ''M'', Source = ModeAll\<rparr>]"
proof -
  have "filter (\<lambda>r. Path r = ''a.go'')
     (mergeChanges
        [\<lparr>Path = ''a.go'', OldPath = [], Status = ''M'', Source = ModeStaged\<rparr>]
        [\<lparr>Path = ''b.go'', OldPath = [], Status = ''M'', Source = ModeUnstaged\<rparr>,
         \<lparr>Path = ''a.go'', OldPath = [], Status = ''D'', Source = ModeUnstaged\<rparr>]) =
   [\<lparr>Path = ''a.go'', OldPath = [], Status = ''M'', Source = ModeAll\<rparr>]"
    using mergeChanges_staged_wins [of
        "[\<lparr>Path = ''a.go'', OldPath = [], Status = ''M'', Source = ModeStaged\<rparr>]" "''a.go''"
        "[\<lparr>Path = ''b.go'', OldPath = [], Status = ''M'', Source = ModeUnstaged\<rparr>,
          \<lparr>Path = ''a.go'', OldPath = [], Status = ''D'', Source = ModeUnstaged\<rparr>]"]
    by simp
  moreover have "mergeChanges
        [\<lparr>Path = ''a.go'', OldPath = [], Status = ''M'', Source = ModeStaged\<rparr>]
        [\<lparr>Path = ''b.go'', OldPath = [], Status = ''M'', Source = ModeUnstaged\<rparr>,
         \<lparr>Path = ''a.go'', OldPath = [], Status = ''D'', Source = ModeUnstaged\<rparr>] =
   [\<lparr>Path = ''a.go'', OldPath = [], Status = ''M'', Source = ModeAll\<rparr>,
    \<lparr>Path = ''b.go'', OldPath = [], Status = ''M'', Source = ModeAll\<rparr>]"
    by (simp add: mergeChanges_def)
  ultimately show ?thesis by simp
qed


subsection \<open>The binary flag of line statistics\<close>













text \<open>In mode \<^verbatim>\<open>all\<close> an error of git counts as the empty output.\<close>

lemma collectNumstat_all_error:
  "collectNumstat ModeAll None unstagedOut = collectNumstat ModeAll (Some []) unstagedOut"
  "collectNumstat ModeAll stagedOut None = collectNumstat ModeAll stagedOut (Some [])"
  by (simp_all add: collectNumstat_def ModeAll_def ModeStaged_def ModeUnstaged_def)





section \<open>Classification\<close>

subsection \<open>Only non-code files\<close>

lemma scanChanges_counts:
  "counts (scanChanges uni changes st) cat = counts st cat + int (categoryCount uni changes cat)"
  by (induction changes arbitrary: st) (auto simp: categoryCount_def scanChange_def Let_def)

lemma scanChanges_perf:
  "hasPerfHint (scanChanges uni changes st) \<longleftrightarrow>
     hasPerfHint st \<or> (\<exists>ch \<in> set changes. Contains (ToLower uni (Path ch)) ''perf''
                                       \<or> Contains (ToLower uni (Path ch)) ''optimiz'')"
  by (induction changes arbitrary: st) (auto simp: scanChange_def Let_def)

lemma scanChanges_refactor:
  "hasRefactorHint (scanChanges uni changes st) \<longleftrightarrow>
     hasRefactorHint st \<or> (\<exists>ch \<in> set changes. Contains (ToLower uni (Path ch)) ''refactor''
                                       \<or> Contains (ToLower uni (Path ch)) ''cleanup'')"
  by (induction changes arbitrary: st) (auto simp: scanChange_def Let_def)

lemma dominantLoop_bound:
  "dominantLoop cnt cats (best, bc) = (b', bc') \<Longrightarrow>
     bc \<le> bc' \<and> (\<forall>c \<in> set cats. cnt c \<le> bc')"
proof (induction cats arbitrary: best bc)
  case Nil
  then show ?case by simp
next
  case (Cons c cats)
  show ?case
  proof (cases "cnt c > bc")
    case True
    with Cons.prems have "dominantLoop cnt cats (c, cnt c) = (b', bc')" by simp
    from Cons.IH [OF this] True show ?thesis by auto
  next
    case False
    with Cons.prems have "dominantLoop cnt cats (best, bc) = (b', bc')" by simp
    from Cons.IH [OF this] False show ?thesis by auto
  qed
qed

lemma dominantLoop_same:
  "dominantLoop cnt cats (best, bc) = (b', bc') \<Longrightarrow> bc' = bc \<Longrightarrow> b' = best"
proof (induction cats arbitrary: best bc)
  case Nil
  then show ?case by simp
next
  case (Cons c cats)
  show ?case
  proof (cases "cnt c > bc")
    case True
    with Cons.prems have "dominantLoop cnt cats (c, cnt c) = (b', bc')" by simp
    from dominantLoop_bound [OF this] True Cons.prems(2) show ?thesis by simp
  next
    case False
    with Cons.prems have "dominantLoop cnt cats (best, bc) = (b', bc')" by simp
    from Cons.IH [OF this] Cons.prems(2) show ?thesis by simp
  qed
qed

lemma dominantLoop_first_max:
  "dominantLoop cnt cats (best, bc) = (b', bc') \<Longrightarrow> bc < bc' \<Longrightarrow>
     b' \<in> set cats \<and> cnt b' = bc' \<and> (\<forall>c \<in> set (takeWhile (\<lambda>c. c \<noteq> b') cats). cnt c < bc')"
proof (induction cats arbitrary: best bc)
  case Nil
  then show ?case by simp
next
  case (Cons c cats)
  show ?case
  proof (cases "cnt c > bc")
    case True
    with Cons.prems have rec: "dominantLoop cnt cats (c, cnt c) = (b', bc')" by simp
    show ?thesis
    proof (cases "cnt c < bc'")
      case True
      from Cons.IH [OF rec True] True show ?thesis by auto
    next
      case False
      with dominantLoop_bound [OF rec] have eq: "bc' = cnt c" by simp
      with dominantLoop_same [OF rec] have "b' = c" by simp
      with eq show ?thesis by simp
    qed
  next
    case False
    with Cons.prems have rec: "dominantLoop cnt cats (best, bc) = (b', bc')" by simp
    from Cons.IH [OF rec Cons.prems(2)] False Cons.prems(2) show ?thesis by auto
  qed
qed

lemma dominantNonCode_zero:
  assumes "\<forall>c \<in> set order. cnt c = 0"
  shows "dominantNonCode cnt = ''chore''"
proof -
  obtain b bc where r: "dominantLoop cnt order (catChore, - 1) = (b, bc)" by force
  have "bc \<le> 0"
  proof (rule ccontr)
    assume "\<not> bc \<le> 0"
    then have "- 1 < bc" by simp
    from dominantLoop_first_max [OF r this] assms \<open>\<not> bc \<le> 0\<close> show False by auto
  qed
  with r show ?thesis by (simp add: dominantNonCode_def)
qed

lemma dominantNonCode_max:
  assumes pos: "\<exists>c \<in> set order. 0 < cnt c"
  shows "dominantNonCode cnt \<in> set order
    \<and> (\<forall>c \<in> set order. cnt c \<le> cnt (dominantNonCode cnt))
    \<and> (\<forall>c \<in> set (takeWhile (\<lambda>c. c \<noteq> dominantNonCode cnt) order). cnt c < cnt (dominantNonCode cnt))"
proof -
  obtain b bc where r: "dominantLoop cnt order (catChore, - 1) = (b, bc)" by force
  from dominantLoop_bound [OF r] pos have bc: "0 < bc" by force
  then have d: "dominantNonCode cnt = b" using r by (simp add: dominantNonCode_def)
  from bc have "- 1 < bc" by simp
  from dominantLoop_first_max [OF r this] dominantLoop_bound [OF r] d show ?thesis by simp
qed

text \<open>
  Claim C1, as the specification states it: the first category in the order docs, test,
  ci, build, chore with a positive count. With one documentation file and two test files
  that is docs; \<^verbatim>\<open>dominantNonCode\<close> keeps the largest count and returns test.
\<close>

theorem detectType_non_code_counterexample:
  "categorizePath id ''README.md'' = catDocs
   \<and> categorizePath id ''a_test.go'' = catTest
   \<and> categorizePath id ''b_test.go'' = catTest
   \<and> detectType id [change ''M'' ''README.md'', change ''M'' ''a_test.go'', change ''M'' ''b_test.go'']
        [] defaultOptions = (''test'', [''only non-code files''])"
  by code_simp

text \<open>
  Claim C1, amended. Without a type override and with no change categorized as code,
  \<^verbatim>\<open>detectType\<close> gives the reason "only non-code files" and the category with the largest
  count among docs, test, ci, build and chore; among categories with that largest count
  it is the first in this order (every category before it has a strictly smaller count).
  When all five counts are zero the type is chore.
\<close>

theorem detectType_non_code:
  assumes ty: "Type opts = []"
    and nocode: "categoryCount uni changes catCode = 0"
  shows "snd (detectType uni changes diff opts) = [''only non-code files'']
    \<and> ((\<forall>c \<in> set order. categoryCount uni changes c = 0) \<longrightarrow>
          fst (detectType uni changes diff opts) = ''chore'')
    \<and> ((\<exists>c \<in> set order. 0 < categoryCount uni changes c) \<longrightarrow>
          fst (detectType uni changes diff opts) \<in> set order
          \<and> (\<forall>c \<in> set order. categoryCount uni changes c
                \<le> categoryCount uni changes (fst (detectType uni changes diff opts)))
          \<and> (\<forall>c \<in> set (takeWhile (\<lambda>c. c \<noteq> fst (detectType uni changes diff opts)) order).
                categoryCount uni changes c
                < categoryCount uni changes (fst (detectType uni changes diff opts))))"
proof -
  let ?cnt = "\<lambda>cat. int (categoryCount uni changes cat)"
  have cnt: "counts (scanChanges uni changes scanStart) = ?cnt"
    by (rule ext) (simp add: scanChanges_counts scanStart_def)
  with ty nocode have dt: "detectType uni changes diff opts =
      (dominantNonCode ?cnt, [''only non-code files''])"
    by (simp add: detectType_def Let_def)
  have zero: "dominantNonCode ?cnt = ''chore''" if "\<forall>c \<in> set order. categoryCount uni changes c = 0"
    using that by (intro dominantNonCode_zero) simp
  have pos: "dominantNonCode ?cnt \<in> set order
    \<and> (\<forall>c \<in> set order. categoryCount uni changes c \<le> categoryCount uni changes (dominantNonCode ?cnt))
    \<and> (\<forall>c \<in> set (takeWhile (\<lambda>c. c \<noteq> dominantNonCode ?cnt) order).
          categoryCount uni changes c < categoryCount uni changes (dominantNonCode ?cnt))"
    if "\<exists>c \<in> set order. 0 < categoryCount uni changes c"
    using dominantNonCode_max [of ?cnt] that by simp
  from dt zero pos show ?thesis by simp
qed

text \<open>A tie between docs and test goes to docs; the empty change list gives chore.\<close>

theorem detectType_non_code_witness:
  "detectType id [change ''M'' ''README.md'', change ''M'' ''a_test.go''] [] defaultOptions =
     (''docs'', [''only non-code files''])
   \<and> detectType id [] [] defaultOptions = (''chore'', [''only non-code files''])"
proof -
  let ?w = "[change ''M'' ''README.md'', change ''M'' ''a_test.go'']"
  have ty: "Type defaultOptions = []" by (simp add: defaultOptions_def)
  have nocode: "categoryCount id ?w catCode = 0" by code_simp
  have docs: "categoryCount id ?w catDocs = 1" by code_simp
  have test: "categoryCount id ?w catTest = 1" by code_simp
  have pos: "\<exists>c \<in> set order. 0 < categoryCount id ?w c"
    using docs by (auto simp: order_def)
  from detectType_non_code [OF ty nocode, of "[]"] pos
  have t: "fst (detectType id ?w [] defaultOptions) \<in> set order"
    and before: "\<forall>c \<in> set (takeWhile (\<lambda>c. c \<noteq> fst (detectType id ?w [] defaultOptions)) order).
        categoryCount id ?w c < categoryCount id ?w (fst (detectType id ?w [] defaultOptions))"
    and most: "\<forall>c \<in> set order. categoryCount id ?w c
        \<le> categoryCount id ?w (fst (detectType id ?w [] defaultOptions))"
    and reasons: "snd (detectType id ?w [] defaultOptions) = [''only non-code files'']"
    by blast+
  have "fst (detectType id ?w [] defaultOptions) = ''docs''"
  proof (rule ccontr)
    assume ne: "fst (detectType id ?w [] defaultOptions) \<noteq> ''docs''"
    then have "catDocs \<in> set (takeWhile (\<lambda>c. c \<noteq> fst (detectType id ?w [] defaultOptions)) order)"
      by (simp add: order_def catDocs_def)
    with before have "1 < categoryCount id ?w (fst (detectType id ?w [] defaultOptions))"
      using docs by auto
    moreover have "\<forall>c \<in> set order. categoryCount id ?w c \<le> 1" by code_simp
    ultimately show False using t by force
  qed
  with reasons have one: "detectType id ?w [] defaultOptions = (''docs'', [''only non-code files''])"
    by (simp add: prod_eq_iff)
  have nocode0: "categoryCount id [] catCode = 0" by (simp add: categoryCount_def)
  have "\<forall>c \<in> set order. categoryCount id [] c = 0" by (simp add: categoryCount_def)
  with detectType_non_code [OF ty nocode0, of "[]"]
  have "detectType id [] [] defaultOptions = (''chore'', [''only non-code files''])"
    by (simp add: prod_eq_iff)
  with one show ?thesis by simp
qed

subsection \<open>The refactor signal\<close>

lemma anyKeyword_iff: "anyKeyword content kws \<longleftrightarrow> (\<exists>kw \<in> set kws. Contains content kw)"
  by (induction kws) auto

lemma keywordLines_iff:
  "keywordLines uni lines kws \<longleftrightarrow>
     (\<exists>line \<in> set lines. qualifies line
        \<and> (\<exists>kw \<in> set kws. Contains (ToLower uni (TrimSpace (tl line))) kw))"
  by (induction lines) (auto simp: qualifies_def anyKeyword_iff Let_def)

lemma ToLower_lower: "isASCII kw \<Longrightarrow> map lowerByte kw = kw \<Longrightarrow> ToLower uni kw = kw"
  by (simp add: ToLower_def)

lemma diffHasKeyword_iff:
  assumes "\<forall>kw \<in> set kws. ToLower uni kw = kw"
  shows "diffHasKeyword uni diff kws \<longleftrightarrow> diffMentions uni diff kws"
proof -
  from assms have m: "map (ToLower uni) kws = kws" by (induction kws) auto
  show ?thesis
  proof (cases "diff = []")
    case True
    then show ?thesis by (simp add: diffHasKeyword_def diffMentions_def qualifies_def)
  next
    case False
    then show ?thesis by (simp add: diffHasKeyword_def diffMentions_def keywordLines_iff m)
  qed
qed

lemma lower_perf: "\<forall>kw \<in> set [''perf'', ''optimiz'', ''speed'']. ToLower uni kw = kw"
  by (simp add: ToLower_def isASCII_def lowerByte_def)

lemma lower_refactor: "\<forall>kw \<in> set [''refactor'', ''cleanup'', ''restructure'']. ToLower uni kw = kw"
  by (simp add: ToLower_def isASCII_def lowerByte_def)

text \<open>
  Claim C3, as the specification states it: a path that contains "restructure" gives type
  refactor. The loop over the paths tests "refactor" and "cleanup" only; "restructure" is
  a keyword of the diff scan alone, as "speed" is for the performance signal.
\<close>

theorem detectType_refactor_counterexample:
  "categorizePath id ''restructure.go'' = catCode
   \<and> Contains ''restructure.go'' ''restructure''
   \<and> detectType id [change ''M'' ''restructure.go''] [] defaultOptions =
       (''fix'', [''defaulted to fix''])"
  by code_simp

text \<open>
  Claim C3, amended. Without a type override, with at least one change categorized as
  code and no performance signal (no lower-cased path contains "perf" or "optimiz", and
  the diff mentions none of "perf", "optimiz", "speed"): if a lower-cased path contains
  "refactor" or "cleanup", or the diff mentions "refactor", "cleanup" or "restructure",
  then \<^verbatim>\<open>detectType\<close> returns refactor with the reason "refactor hints".
\<close>

theorem detectType_refactor:
  assumes ty: "Type opts = []"
    and code: "\<exists>ch \<in> set changes. categorizePath uni (Path ch) = catCode"
    and noperf: "\<forall>ch \<in> set changes. \<not> Contains (ToLower uni (Path ch)) ''perf''
                                  \<and> \<not> Contains (ToLower uni (Path ch)) ''optimiz''"
      "\<not> diffMentions uni diff [''perf'', ''optimiz'', ''speed'']"
    and sig: "(\<exists>ch \<in> set changes. Contains (ToLower uni (Path ch)) ''refactor''
                               \<or> Contains (ToLower uni (Path ch)) ''cleanup'')
              \<or> diffMentions uni diff [''refactor'', ''cleanup'', ''restructure'']"
  shows "detectType uni changes diff opts = (''refactor'', [''refactor hints''])"
proof -
  let ?st = "scanChanges uni changes scanStart"
  from code have "0 < categoryCount uni changes catCode"
    by (auto simp: categoryCount_def filter_empty_conv)
  then have c: "counts ?st catCode \<noteq> 0"
    by (simp add: scanChanges_counts scanStart_def)
  from noperf(1) have p1: "\<not> hasPerfHint ?st"
    by (simp add: scanChanges_perf scanStart_def)
  from noperf(2) have p2: "\<not> diffHasKeyword uni diff [''perf'', ''optimiz'', ''speed'']"
    using diffHasKeyword_iff [OF lower_perf] by simp
  from sig have r: "hasRefactorHint ?st
      \<or> diffHasKeyword uni diff [''refactor'', ''cleanup'', ''restructure'']"
    using diffHasKeyword_iff [OF lower_refactor, of uni diff]
    by (auto simp: scanChanges_refactor scanStart_def)
  from ty c p1 p2 r show ?thesis
    by (simp add: detectType_def Let_def)
qed

text \<open>The signal from a path, and from an added line of the diff.\<close>

theorem detectType_refactor_witness:
  "detectType id [change ''M'' ''pkg/cleanup_util.go''] [] defaultOptions =
     (''refactor'', [''refactor hints''])
   \<and> detectType id [change ''M'' ''main.go''] (''+// Restructure the handlers'') defaultOptions =
     (''refactor'', [''refactor hints''])"
proof -
  have ty: "Type defaultOptions = []" by (simp add: defaultOptions_def)
  have "detectType id [change ''M'' ''pkg/cleanup_util.go''] [] defaultOptions =
     (''refactor'', [''refactor hints''])"
  proof (rule detectType_refactor [OF ty])
    show "\<exists>ch \<in> set [change ''M'' ''pkg/cleanup_util.go'']. categorizePath id (Path ch) = catCode"
      by code_simp
    show "\<forall>ch \<in> set [change ''M'' ''pkg/cleanup_util.go''].
        \<not> Contains (ToLower id (Path ch)) ''perf'' \<and> \<not> Contains (ToLower id (Path ch)) ''optimiz''"
      by code_simp
    show "\<not> diffMentions id [] [''perf'', ''optimiz'', ''speed'']"
      by code_simp
    show "(\<exists>ch \<in> set [change ''M'' ''pkg/cleanup_util.go''].
          Contains (ToLower id (Path ch)) ''refactor'' \<or> Contains (ToLower id (Path ch)) ''cleanup'')
      \<or> diffMentions id [] [''refactor'', ''cleanup'', ''restructure'']"
      by code_simp
  qed
  moreover have "detectType id [change ''M'' ''main.go''] (''+// Restructure the handlers'') defaultOptions =
     (''refactor'', [''refactor hints''])"
  proof (rule detectType_refactor [OF ty])
    show "\<exists>ch \<in> set [change ''M'' ''main.go'']. categorizePath id (Path ch) = catCode"
      by code_simp
    show "\<forall>ch \<in> set [change ''M'' ''main.go''].
        \<not> Contains (ToLower id (Path ch)) ''perf'' \<and> \<not> Contains (ToLower id (Path ch)) ''optimiz''"
      by code_simp
    show "\<not> diffMentions id (''+// Restructure the handlers'') [''perf'', ''optimiz'', ''speed'']"
      by code_simp
    show "(\<exists>ch \<in> set [change ''M'' ''main.go''].
          Contains (ToLower id (Path ch)) ''refactor'' \<or> Contains (ToLower id (Path ch)) ''cleanup'')
      \<or> diffMentions id (''+// Restructure the handlers'') [''refactor'', ''cleanup'', ''restructure'']"
      by code_simp
  qed
  ultimately show ?thesis by simp
qed


section \<open>Composition\<close>

subsection \<open>What the summary line counts\<close>





subsection \<open>Cutting the subject\<close>







subsection \<open>Reading the prefix back\<close>

lemma sanitizeScope_sanitized: "sanitized (sanitizeScope uni scope)"
  by (simp add: sanitized_def sanitizeScope_def Let_def)

lemma lowerByte_lower: "isLowerLetter c \<Longrightarrow> lowerByte c = c"
  unfolding isLowerLetter_def
  apply (simp only: list.set insert_iff empty_iff)
  apply (elim disjE)
  apply (simp_all add: lowerByte_def)
  done

lemma isLowerLetter_ascii: "isLowerLetter c \<Longrightarrow> (of_char c :: nat) < 128"
  unfolding isLowerLetter_def
  apply (simp only: list.set insert_iff empty_iff)
  apply (elim disjE)
  apply simp_all
  done

lemma ToLower_letters: "\<forall>c \<in> set t. isLowerLetter c \<Longrightarrow> ToLower uni t = t"
proof -
  assume a: "\<forall>c \<in> set t. isLowerLetter c"
  then have "isASCII t" by (simp add: isASCII_def list_all_iff isLowerLetter_ascii)
  moreover from a have "map lowerByte t = t" by (induction t) (simp_all add: lowerByte_lower)
  ultimately show ?thesis by (simp add: ToLower_def)
qed

lemma commitTypes_letters: "t \<in> set commitTypes \<Longrightarrow> t \<noteq> [] \<and> (\<forall>c \<in> set t. isLowerLetter c)"
  unfolding commitTypes_def
  apply (simp only: list.set insert_iff empty_iff)
  apply (elim disjE)
  apply (simp_all add: isLowerLetter_def)
  done

lemma commitTypes_emoji:
  "t \<in> set commitTypes \<Longrightarrow>
     emojiCode uni t \<noteq> [] \<and> hd (emojiCode uni t) = CHR '':'' \<and> CHR '' '' \<notin> set (emojiCode uni t)"
proof -
  assume t: "t \<in> set commitTypes"
  then have low: "ToLower uni t = t" using commitTypes_letters ToLower_letters by blast
  from t show ?thesis
    unfolding emojiCode_def low Let_def commitTypes_def
    apply (simp only: list.set insert_iff empty_iff)
    apply (elim disjE)
    apply simp_all
    done
qed

lemma takeWhile_until: "y \<notin> set xs \<Longrightarrow> takeWhile (\<lambda>c. c \<noteq> y) (xs @ y # ys) = xs"
  by (induction xs) auto

lemma dropWhile_until: "y \<notin> set xs \<Longrightarrow> dropWhile (\<lambda>c. c \<noteq> y) (xs @ y # ys) = y # ys"
  by (induction xs) auto

lemma takeWhile_all: "\<forall>x \<in> set xs. P x \<Longrightarrow> \<not> P y \<Longrightarrow> takeWhile P (xs @ y # ys) = xs"
  by (induction xs) auto

lemma dropWhile_all: "\<forall>x \<in> set xs. P x \<Longrightarrow> \<not> P y \<Longrightarrow> dropWhile P (xs @ y # ys) = y # ys"
  by (induction xs) auto

lemma skipEmoji_code:
  assumes "code \<noteq> []" "hd code = CHR '':''" "CHR '' '' \<notin> set code"
  shows "skipEmoji (code @ '' '' @ m) = m"
proof -
  from assms(3) have "dropWhile (\<lambda>c. c \<noteq> CHR '' '') (code @ CHR '' '' # m) = CHR '' '' # m"
    by (rule dropWhile_until)
  with assms(1,2) show ?thesis by (cases code) (simp_all add: skipEmoji_def)
qed

lemma not_letter_colon: "\<not> isLowerLetter (CHR '':'')" "\<not> isLowerLetter (CHR ''('')"
  "\<not> isLowerLetter (CHR ''!'')"
  by (simp_all add: isLowerLetter_def)

lemma skipEmoji_plain:
  assumes "t \<noteq> []" "\<forall>c \<in> set t. isLowerLetter c"
  shows "skipEmoji (t @ m) = t @ m"
proof (cases t)
  case Nil
  with assms show ?thesis by simp
next
  case (Cons c cs)
  with assms have "isLowerLetter c" by simp
  with not_letter_colon(1) have "c \<noteq> CHR '':''" by blast
  with Cons show ?thesis by (simp add: skipEmoji_def)
qed

lemma parseHeader_ok:
  assumes t: "\<forall>c \<in> set t. isLowerLetter c" and sc: "CHR '')'' \<notin> set scope"
  shows "parseHeader (t @ (if scope \<noteq> [] then ''('' @ scope @ '')'' else [])
                        @ (if breaking then ''!'' else []) @ '': '' @ rest) =
         Some (t, scope, breaking)"
proof -
  note tw = takeWhile_all [OF t] dropWhile_all [OF t]
  note sw = takeWhile_until [OF sc] dropWhile_until [OF sc]
  show ?thesis
  proof (cases "scope = []")
    case True
    show ?thesis
    proof (cases breaking)
      case True
      with \<open>scope = []\<close> show ?thesis
        by (simp add: parseHeader_def Let_def tw not_letter_colon)
    next
      case False
      with \<open>scope = []\<close> show ?thesis
        by (simp add: parseHeader_def Let_def tw not_letter_colon)
    qed
  next
    case False
    show ?thesis
    proof (cases breaking)
      case True
      with \<open>scope \<noteq> []\<close> show ?thesis
        by (simp add: parseHeader_def Let_def tw sw not_letter_colon)
    next
      case False
      with \<open>scope \<noteq> []\<close> show ?thesis
        by (simp add: parseHeader_def Let_def tw sw not_letter_colon)
    qed
  qed
qed

lemma paren_no_scopeChar: "CHR '')'' \<notin> set scopeChars"
  by (simp add: scopeChars_def)

lemma sanitized_no_paren: "sanitized scope \<Longrightarrow> CHR '')'' \<notin> set scope"
  using paren_no_scopeChar unfolding sanitized_def by blast

lemma formatMessage_shape:
  assumes fmt: "Format opts = FormatConventional \<or> Format opts = FormatGitmoji"
    and ty: "commitType \<in> set commitTypes"
  shows "formatMessage uni commitType scope subject body opts breaking =
      (if Emoji opts \<or> Format opts = FormatGitmoji then emojiCode uni commitType @ '' '' else [])
      @ commitType @ (if scope \<noteq> [] then ''('' @ scope @ '')'' else [])
      @ (if breaking then ''!'' else []) @ '': ''
      @ (trimSubject (lowerFirst uni subject) (MaxSubject opts)
         @ (if body \<noteq> [] then [LF, LF] @ body else []))"
proof -
  from ty have low: "ToLower uni commitType = commitType"
    using commitTypes_letters ToLower_letters by blast
  from ty have code: "emojiCode uni commitType \<noteq> []"
    using commitTypes_emoji by blast
  from fmt low code show ?thesis by (simp add: formatMessage_def Let_def)
qed

lemma parsePrefix_formatMessage:
  assumes fmt: "Format opts = FormatConventional \<or> Format opts = FormatGitmoji"
    and ty: "commitType \<in> set commitTypes"
    and sc: "sanitized scope"
  shows "parsePrefix (formatMessage uni commitType scope subject body opts breaking) =
           Some (commitType, scope, breaking)"
proof -
  from ty have t: "commitType \<noteq> []" "\<forall>c \<in> set commitType. isLowerLetter c"
    using commitTypes_letters by blast+
  from ty have code: "emojiCode uni commitType \<noteq> []" "hd (emojiCode uni commitType) = CHR '':''"
      "CHR '' '' \<notin> set (emojiCode uni commitType)"
    using commitTypes_emoji by blast+
  let ?rest = "trimSubject (lowerFirst uni subject) (MaxSubject opts)
         @ (if body \<noteq> [] then [LF, LF] @ body else [])"
  let ?h = "commitType @ (if scope \<noteq> [] then ''('' @ scope @ '')'' else [])
      @ (if breaking then ''!'' else []) @ '': '' @ ?rest"
  note m = formatMessage_shape [OF fmt ty, of uni scope subject body breaking]
  have "skipEmoji (formatMessage uni commitType scope subject body opts breaking) = ?h"
  proof (cases "Emoji opts \<or> Format opts = FormatGitmoji")
    case True
    then have "formatMessage uni commitType scope subject body opts breaking =
        emojiCode uni commitType @ '' '' @ ?h" unfolding m by simp
    with skipEmoji_code [OF code, of ?h] show ?thesis by simp
  next
    case False
    then have "formatMessage uni commitType scope subject body opts breaking = ?h"
      unfolding m by simp
    with skipEmoji_plain [OF t, of "(if scope \<noteq> [] then ''('' @ scope @ '')'' else [])
      @ (if breaking then ''!'' else []) @ '': '' @ ?rest"] show ?thesis by simp
  qed
  with parseHeader_ok [OF t(2) sanitized_no_paren [OF sc], of breaking ?rest]
  show ?thesis by (simp add: parsePrefix_def)
qed

text \<open>
  Claim C4, as the specification states it, for every supported format. In the plain
  format \<^verbatim>\<open>formatMessage\<close> writes no prefix: the triples (feat, api, breaking) and
  (fix, no scope, not breaking) give the same message, from which neither can be read back.
\<close>

theorem formatMessage_roundtrip_counterexample:
  "formatMessage id ''feat'' ''api'' ''Add api'' [] (defaultOptions\<lparr>Format := FormatPlain\<rparr>) True
     = ''Add api''
   \<and> formatMessage id ''fix'' [] ''Add api'' [] (defaultOptions\<lparr>Format := FormatPlain\<rparr>) False
     = ''Add api''"
  by code_simp

text \<open>
  Claim C4, amended. In the formats conventional and gitmoji, for a commit type of the
  fixed label set and a sanitized scope, reading the prefix of the formatted message
  gives back the type, the scope and the breaking flag, whatever the subject, the body
  and the emoji option are. Hence two such messages that are equal come from the same
  triple. The plain format has no prefix to read.
\<close>

theorem formatMessage_roundtrip:
  assumes fmt: "Format opts = FormatConventional \<or> Format opts = FormatGitmoji"
    and ty: "commitType \<in> set commitTypes"
    and sc: "sanitized scope"
  shows "parsePrefix (formatMessage uni commitType scope subject body opts breaking) =
           Some (commitType, scope, breaking)
    \<and> (\<forall>opts' type' scope' subject' body' breaking'.
          (Format opts' = FormatConventional \<or> Format opts' = FormatGitmoji)
          \<and> type' \<in> set commitTypes \<and> sanitized scope'
          \<and> formatMessage uni type' scope' subject' body' opts' breaking' =
              formatMessage uni commitType scope subject body opts breaking
          \<longrightarrow> type' = commitType \<and> scope' = scope \<and> breaking' = breaking)"
proof (intro conjI allI impI)
  show one: "parsePrefix (formatMessage uni commitType scope subject body opts breaking) =
           Some (commitType, scope, breaking)"
    by (rule parsePrefix_formatMessage [OF fmt ty sc])
  fix opts' type' scope' subject' body' breaking'
  assume a: "(Format opts' = FormatConventional \<or> Format opts' = FormatGitmoji)
          \<and> type' \<in> set commitTypes \<and> sanitized scope'
          \<and> formatMessage uni type' scope' subject' body' opts' breaking' =
              formatMessage uni commitType scope subject body opts breaking"
  then have "parsePrefix (formatMessage uni type' scope' subject' body' opts' breaking') =
      Some (type', scope', breaking')"
    by (intro parsePrefix_formatMessage) simp_all
  with a one have "Some (type', scope', breaking') = Some (commitType, scope, breaking)" by simp
  then show "type' = commitType" and "scope' = scope" and "breaking' = breaking" by simp_all
qed

text \<open>A conventional message with scope and breaking mark, and a gitmoji message with a body.\<close>

theorem formatMessage_roundtrip_witness:
  "formatMessage id ''feat'' ''api'' ''Add api'' [] defaultOptions True = ''feat(api)!: add api''
   \<and> parsePrefix ''feat(api)!: add api'' = Some (''feat'', ''api'', True)
   \<and> formatMessage id ''fix'' [] ''Fix bug'' ''- mod a.go''
        (defaultOptions\<lparr>Format := FormatGitmoji\<rparr>) False =
      '':bug: fix: fix bug'' @ [LF, LF] @ ''- mod a.go''
   \<and> parsePrefix ('':bug: fix: fix bug'' @ [LF, LF] @ ''- mod a.go'') = Some (''fix'', [], False)"
proof -
  have f1: "Format defaultOptions = FormatConventional \<or> Format defaultOptions = FormatGitmoji"
    by (simp add: defaultOptions_def)
  have f2: "Format (defaultOptions\<lparr>Format := FormatGitmoji\<rparr>) = FormatConventional
      \<or> Format (defaultOptions\<lparr>Format := FormatGitmoji\<rparr>) = FormatGitmoji" by simp
  have t1: "''feat'' \<in> set commitTypes" and t2: "''fix'' \<in> set commitTypes"
    by (simp_all add: commitTypes_def)
  have s1: "sanitized ''api''" and s2: "sanitized []"
    by (simp_all add: sanitized_def scopeChars_def)
  have d1: "DecodeRuneInString ''Add api'' = (65, 1)" by code_simp
  have d2: "DecodeRuneInString ''Fix bug'' = (70, 1)" by code_simp
  have e1: "encodeRune 65 = ''A''" and e2: "encodeRune 70 = ''F''" by code_simp+
  have l1: "lowerFirst id ''Add api'' = ''add api''"
    by (simp add: lowerFirst_def d1 e1 RuneError_def ToLower_def isASCII_def lowerByte_def)
  have l2: "lowerFirst id ''Fix bug'' = ''fix bug''"
    by (simp add: lowerFirst_def d2 e2 RuneError_def ToLower_def isASCII_def lowerByte_def)
  have c1: "trimSubject ''add api'' 72 = ''add api''" by code_simp
  have c2: "trimSubject ''fix bug'' 72 = ''fix bug''" by code_simp
  have g: "emojiCode id ''fix'' = '':bug:''" by code_simp
  have m1: "formatMessage id ''feat'' ''api'' ''Add api'' [] defaultOptions True =
      ''feat(api)!: add api''"
    by (simp add: formatMessage_def Let_def l1 c1 defaultOptions_def FormatConventional_def
        FormatGitmoji_def ToLower_def isASCII_def lowerByte_def)
  have m2: "formatMessage id ''fix'' [] ''Fix bug'' ''- mod a.go''
        (defaultOptions\<lparr>Format := FormatGitmoji\<rparr>) False =
      '':bug: fix: fix bug'' @ [LF, LF] @ ''- mod a.go''"
    by (simp add: formatMessage_def Let_def l2 c2 g defaultOptions_def FormatConventional_def
        FormatGitmoji_def ToLower_def isASCII_def lowerByte_def)
  have p1: "parsePrefix ''feat(api)!: add api'' = Some (''feat'', ''api'', True)"
    using formatMessage_roundtrip [OF f1 t1 s1,
        where uni = id and subject = "''Add api''" and body = "[]" and breaking = True,
        THEN conjunct1]
    unfolding m1 .
  have p2: "parsePrefix ('':bug: fix: fix bug'' @ [LF, LF] @ ''- mod a.go'') =
      Some (''fix'', [], False)"
    using formatMessage_roundtrip [OF f2 t2 s2,
        where uni = id and subject = "''Fix bug''" and body = "''- mod a.go''"
          and breaking = False,
        THEN conjunct1]
    unfolding m2 .
  from m1 m2 p1 p2 show ?thesis by (intro conjI)
qed

end
